theory Spec2Isabelle
  imports Complex_Main "HOL-Library.Sublist"
begin

section \<open>The chat route and its observability calls\<close>

text \<open>
  The route handler \<open>POST\<close> of the chat endpoint wraps one streamed model call in calls to
  an observability logger: it resolves a session, opens a trace, a workflow span and an
  agent span, hands two tools and two callbacks to the model provider, and returns the
  provider's stream. The logger, the provider, the wall clock and the random generator
  are outside the repository. They are parameters here:
  \<^item> every call of a logger method is recorded, in order, with the reply the logger gave
    (it returned a value or it threw); the reply of the \<open>n\<close>-th call is \<open>replies env n\<close>;
  \<^item> the \<open>n\<close>-th reading of the clock is \<open>clock env n\<close>, in milliseconds;
  \<^item> the provider is a list of the calls it makes into the handler's tools and callbacks.
  The module-level \<open>chatSessionMap\<close> lives in the state, which is passed through every
  operation and returned updated; a thrown exception is the \<open>Inl\<close> of a sum.
\<close>

subsection \<open>JavaScript values the handler touches\<close>

text \<open>A thrown value is an \<open>Error\<close> instance carrying a message, or anything else.\<close>

datatype thrown = ErrorObj string | NonError

text \<open>\<open>error instanceof Error ? error.message : 'Unknown error'\<close>\<close>

definition error_message :: "thrown \<Rightarrow> string" where
  "error_message error = (case error of ErrorObj m \<Rightarrow> m | NonError \<Rightarrow> ''Unknown error'')"

text \<open>
  \<open>x || d\<close> for an \<open>x\<close> that is a string or \<open>undefined\<close>: both \<open>undefined\<close> and the
  empty string are falsy.
\<close>

definition js_or :: "string option \<Rightarrow> string \<Rightarrow> string" where
  "js_or x d = (case x of None \<Rightarrow> d | Some v \<Rightarrow> if v = [] then d else v)"

text \<open>\<open>Array.prototype.join\<close>: an \<open>undefined\<close> element contributes the empty string.\<close>

fun js_join :: "string \<Rightarrow> string option list \<Rightarrow> string" where
  "js_join sep [] = []"
| "js_join sep [x] = (case x of None \<Rightarrow> [] | Some v \<Rightarrow> v)"
| "js_join sep (x # y # ys) = (case x of None \<Rightarrow> [] | Some v \<Rightarrow> v) @ sep @ js_join sep (y # ys)"

text \<open>
  Numbers are doubles. The handler's own arithmetic is on whole numbers, the readings of
  the millisecond clock: their difference and the product with \<open>1000000\<close> are the exact
  results rounded to the nearest double, a tie going to the even significand. A whole
  number below \<open>2^53\<close> in magnitude is a double; above, the doubles are the multiples of
  a power of two. (The readings of the clock are far from the range where a double
  overflows.)
\<close>

fun bit_length :: "nat \<Rightarrow> nat" where
  "bit_length n = (if n = 0 then 0 else Suc (bit_length (n div 2)))"

declare bit_length.simps [simp del]

definition round_half_even :: "int \<Rightarrow> int \<Rightarrow> int" where
  "round_half_even n u =
     (let q = n div u; r = n mod u
      in if 2 * r < u then q
         else if u < 2 * r then q + 1
         else if even q then q else q + 1)"

definition to_double :: "int \<Rightarrow> int" where
  "to_double n =
     (if \<bar>n\<bar> < 2 ^ 53 then n
      else (let u = 2 ^ (bit_length (nat \<bar>n\<bar>) - 53) in round_half_even n u * u))"

text \<open>
  Any other number (a temperature, the result of \<open>Math.round\<close>) is known here only by
  the text \<open>JSON.stringify\<close> prints for it: arithmetic on fractional doubles is not modelled.
\<close>

datatype jsnumber = JSNumber (json_text: string)

subsection \<open>\<open>JSON.stringify\<close> on the shapes the handler passes\<close>

text \<open>
  The handler serialises flat objects whose fields are strings or numbers, and one
  array of such objects. A string is quoted as \<open>JSON.stringify\<close> quotes it: the double
  quote and the backslash are escaped, the control characters below \<open>0x20\<close> get their
  short escape or \<open>\u00XX\<close>, every other character stands for itself. A \<open>char\<close> here is
  one code unit below \<open>0x100\<close>.
\<close>

definition hex_digit :: "nat \<Rightarrow> char" where
  "hex_digit n = (if n < 10 then char_of (48 + n) else char_of (87 + n))"

definition json_escape :: "char \<Rightarrow> string" where
  "json_escape c =
     (if c = CHR 0x22 then [CHR 0x5C, CHR 0x22]
      else if c = CHR 0x5C then [CHR 0x5C, CHR 0x5C]
      else if c = CHR 0x08 then [CHR 0x5C, CHR ''b'']
      else if c = CHR 0x0C then [CHR 0x5C, CHR ''f'']
      else if c = CHR 0x0A then [CHR 0x5C, CHR ''n'']
      else if c = CHR 0x0D then [CHR 0x5C, CHR ''r'']
      else if c = CHR 0x09 then [CHR 0x5C, CHR ''t'']
      else if (of_char c :: nat) < 32 then
        [CHR 0x5C, CHR ''u'', CHR ''0'', CHR ''0'',
         hex_digit (of_char c div 16), hex_digit (of_char c mod 16)]
      else [c])"

definition json_quote :: "string \<Rightarrow> string" where
  "json_quote s = CHR 0x22 # concat (map json_escape s) @ [CHR 0x22]"

datatype jsval = JString string | JNumber jsnumber

type_synonym jsobject = "(string \<times> jsval) list"

definition stringify_value :: "jsval \<Rightarrow> string" where
  "stringify_value v = (case v of JString s \<Rightarrow> json_quote s | JNumber n \<Rightarrow> json_text n)"

fun stringify_fields :: "jsobject \<Rightarrow> string" where
  "stringify_fields [] = []"
| "stringify_fields [(k, v)] = json_quote k @ '':'' @ stringify_value v"
| "stringify_fields ((k, v) # f # fs) =
     json_quote k @ '':'' @ stringify_value v @ '','' @ stringify_fields (f # fs)"

definition stringify_object :: "jsobject \<Rightarrow> string" where
  "stringify_object fs = ''{'' @ stringify_fields fs @ ''}''"

fun stringify_elements :: "jsobject list \<Rightarrow> string" where
  "stringify_elements [] = []"
| "stringify_elements [x] = stringify_object x"
| "stringify_elements (x # y # ys) = stringify_object x @ '','' @ stringify_elements (y # ys)"

definition stringify_array :: "jsobject list \<Rightarrow> string" where
  "stringify_array xs = ''['' @ stringify_elements xs @ '']''"

subsection \<open>The request\<close>

text \<open>
  A message has a role and, when the field is present, a list of parts; a part has a
  type and, when the field is present, a text. The body of a request either fails to
  parse (\<open>req.json()\<close> throws) or gives the messages and the optional conversation
  identifier \<open>id\<close>.
\<close>

datatype UIPart = UIPart (ptype: string) (ptext: "string option")

datatype UIMessage = UIMessage (role: string) (parts: "UIPart list option")

datatype body = Malformed thrown | Body "UIMessage list" "string option"

subsection \<open>The logger, the clock and the state\<close>

datatype reply = Returns string | Throws thrown

record env =
  replies :: "nat \<Rightarrow> reply"
  clock :: "nat \<Rightarrow> int"
  streamText_throws :: "thrown option"

text \<open>
  The methods of the logger the handler calls, with their arguments in the order of the
  source: \<open>AddAgentSpan input name createdAt tags\<close>,
  \<open>AddToolSpan input output name durationNs createdAt tags\<close>,
  \<open>AddLlmSpan input output model name durationNs numInputTokens numOutputTokens totalTokens tags\<close>.
\<close>

datatype call =
    StartSession string
  | SetSessionId string
  | StartTrace string string
  | AddWorkflowSpan string string
  | AddAgentSpan string string int "string list"
  | AddToolSpan string string string int int "string list"
  | AddLlmSpan "(string \<times> string) list" "string \<times> string" string string int
      "nat option" "nat option" "nat option" "string list"
  | Conclude string
  | Flush

datatype event = Call call reply | ConsoleError thrown

record state =
  events :: "event list"
  ncalls :: nat
  nreads :: nat
  chatSessionMap :: "string \<rightharpoonup> string"

type_synonym 'a action = "state \<Rightarrow> (thrown + 'a) \<times> state"

definition logger_call :: "env \<Rightarrow> call \<Rightarrow> string action" where
  "logger_call env c s =
     (let r = replies env (ncalls s);
          s' = s\<lparr>events := events s @ [Call c r], ncalls := Suc (ncalls s)\<rparr>
      in (case r of Returns v \<Rightarrow> Inr v | Throws e \<Rightarrow> Inl e, s'))"

text \<open>\<open>new Date()\<close> and \<open>Date.now()\<close>: the next reading of the clock.\<close>

definition now :: "env \<Rightarrow> state \<Rightarrow> int \<times> state" where
  "now env s = (clock env (nreads s), s\<lparr>nreads := Suc (nreads s)\<rparr>)"

text \<open>Sequencing: an exception of the first action skips the second.\<close>

definition and_then :: "'a action \<Rightarrow> ('a \<Rightarrow> 'b action) \<Rightarrow> 'b action" where
  "and_then f g s = (case f s of (Inl e, s') \<Rightarrow> (Inl e, s') | (Inr a, s') \<Rightarrow> g a s')"

subsection \<open>Step 2: start or continue the session\<close>

definition truthy :: "string option \<Rightarrow> bool" where
  "truthy x = (case x of None \<Rightarrow> False | Some v \<Rightarrow> v \<noteq> [])"

text \<open>\<open>`Chat Session${chatId ? ` - ${chatId}` : ''}`\<close>\<close>

definition session_name :: "string option \<Rightarrow> string" where
  "session_name chatId =
     ''Chat Session'' @ (case chatId of None \<Rightarrow> [] | Some c \<Rightarrow> if c = [] then [] else '' - '' @ c)"

definition resolveSession :: "env \<Rightarrow> string option \<Rightarrow> string action" where
  "resolveSession env chatId s =
     (case (if truthy chatId then Option.bind chatId (chatSessionMap s) else None) of
        Some sessionId \<Rightarrow>
          and_then (logger_call env (SetSessionId sessionId)) (\<lambda>_ s'. (Inr sessionId, s')) s
      | None \<Rightarrow>
          and_then (logger_call env (StartSession (session_name chatId)))
            (\<lambda>sessionId s'.
               (Inr sessionId,
                case chatId of
                  None \<Rightarrow> s'
                | Some c \<Rightarrow>
                    if c = [] then s'
                    else s'\<lparr>chatSessionMap := (chatSessionMap s')(c \<mapsto> sessionId)\<rparr>)) s)"

subsection \<open>Steps 3 to 5: trace, workflow span, agent span\<close>

text \<open>
  \<open>messages[messages.length - 1]?.parts?.find(p => p.type === 'text')?.text || 'Chat request'\<close>
\<close>

definition last_message :: "UIMessage list \<Rightarrow> UIMessage option" where
  "last_message messages = (if messages = [] then None else Some (last messages))"

definition trace_input :: "UIMessage list \<Rightarrow> string" where
  "trace_input messages =
     js_or (Option.bind (Option.bind (Option.bind (last_message messages) parts)
                           (find (\<lambda>p. ptype p = ''text''))) ptext)
           ''Chat request''"

text \<open>
  \<open>m.parts?.map(p => p.type === 'text' ? p.text : `[${p.type}]`).join(' ') || ''\<close>
\<close>

definition part_content :: "UIPart \<Rightarrow> string option" where
  "part_content p = (if ptype p = ''text'' then ptext p else Some (''['' @ ptype p @ '']''))"

definition message_content :: "UIMessage \<Rightarrow> string" where
  "message_content m =
     js_or (map_option (\<lambda>ps. js_join '' '' (map part_content ps)) (parts m)) []"

definition transcript :: "UIMessage list \<Rightarrow> (string \<times> string) list" where
  "transcript messages = map (\<lambda>m. (role m, message_content m)) messages"

definition agent_input :: "UIMessage list \<Rightarrow> string" where
  "agent_input messages =
     stringify_array
       (map (\<lambda>(r, c). [(''role'', JString r), (''content'', JString c)]) (transcript messages))"

text \<open>What the tools and the callbacks close over.\<close>

record stream =
  messages :: "UIMessage list"
  agentStartTime :: int

definition POST_try :: "env \<Rightarrow> body \<Rightarrow> stream action" where
  "POST_try env req s =
     (case req of
        Malformed e \<Rightarrow> (Inl e, s)
      | Body msgs chatId \<Rightarrow>
          and_then (resolveSession env chatId) (\<lambda>sessionId.
          and_then (logger_call env (StartTrace (trace_input msgs) ''Chat Exchange'')) (\<lambda>_.
          and_then (logger_call env
              (AddWorkflowSpan ''Processing chat request with agent decision-making''
                 ''Chat Processing Workflow'')) (\<lambda>_ s1.
          (case now env s1 of (start, s2) \<Rightarrow>
          and_then (logger_call env
              (AddAgentSpan (agent_input msgs) ''Weather Agent'' start
                 [''agent'', ''tool-selection''])) (\<lambda>_ s3.
          (case streamText_throws env of
             Some e \<Rightarrow> (Inl e, s3)
           | None \<Rightarrow> (Inr \<lparr>messages = msgs, agentStartTime = start\<rparr>, s3))) s2)))) s)"

text \<open>The \<open>catch\<close> of the handler: \<open>console.error\<close>, then \<open>throw error\<close>.\<close>

definition POST :: "env \<Rightarrow> body \<Rightarrow> stream action" where
  "POST env req s =
     (case POST_try env req s of
        (Inl error, s') \<Rightarrow> (Inl error, s'\<lparr>events := events s' @ [ConsoleError error]\<rparr>)
      | (Inr response, s') \<Rightarrow> (Inr response, s'))"

subsection \<open>Step 6: the tools\<close>

text \<open>
  Each tool reads the clock, does its work and logs a tool span inside a \<open>try\<close>; the
  \<open>catch\<close> logs a second tool span, tagged \<open>error\<close>, and throws the caught error again.
  The work of a tool is arithmetic on doubles, and random in one of them; the value it
  has in the run is an argument: for \<open>weatherTool\<close> the argument \<open>temperature\<close> is the value
  of \<open>Math.round(Math.random() * (90 - 32) + 32)\<close>, for \<open>convertTool\<close> the argument \<open>celsius\<close> is
  the value of \<open>Math.round((temperature - 32) * (5 / 9))\<close>. Neither expression throws.
\<close>

text \<open>\<open>(Date.now() - toolStart.getTime()) * 1000000\<close>\<close>

definition durationNs :: "int \<Rightarrow> int \<Rightarrow> int" where
  "durationNs t start = to_double (to_double (t - start) * 1000000)"

definition weatherTool :: "env \<Rightarrow> string \<Rightarrow> jsnumber \<Rightarrow> jsobject action" where
  "weatherTool env location temperature s =
     (case now env s of (toolStart, s0) \<Rightarrow>
      (let result = [(''location'', JString location), (''temperature'', JNumber temperature)]
       in case now env s0 of (t1, s1) \<Rightarrow>
          (case logger_call env
                  (AddToolSpan (stringify_object [(''location'', JString location)])
                     (stringify_object result) ''Weather Tool'' (durationNs t1 toolStart)
                     toolStart [''tool'', ''weather'']) s1 of
             (Inr _, s2) \<Rightarrow> (Inr result, s2)
           | (Inl error, s2) \<Rightarrow>
               (case now env s2 of (t2, s3) \<Rightarrow>
                  and_then
                    (logger_call env
                       (AddToolSpan (stringify_object [(''location'', JString location)])
                          (stringify_object [(''error'', JString (error_message error))])
                          ''Weather Tool (Error)'' (durationNs t2 toolStart) toolStart
                          [''tool'', ''weather'', ''error'']))
                    (\<lambda>_ s4. (Inl error, s4)) s3))))"

definition convertTool :: "env \<Rightarrow> jsnumber \<Rightarrow> jsnumber \<Rightarrow> jsobject action" where
  "convertTool env temperature celsius s =
     (case now env s of (toolStart, s0) \<Rightarrow>
      (let result = [(''celsius'', JNumber celsius)]
       in case now env s0 of (t1, s1) \<Rightarrow>
          (case logger_call env
                  (AddToolSpan (stringify_object [(''temperature'', JNumber temperature)])
                     (stringify_object result) ''Temperature Conversion Tool''
                     (durationNs t1 toolStart) toolStart [''tool'', ''conversion'']) s1 of
             (Inr _, s2) \<Rightarrow> (Inr result, s2)
           | (Inl error, s2) \<Rightarrow>
               (case now env s2 of (t2, s3) \<Rightarrow>
                  and_then
                    (logger_call env
                       (AddToolSpan (stringify_object [(''temperature'', JNumber temperature)])
                          (stringify_object [(''error'', JString (error_message error))])
                          ''Temperature Conversion Tool (Error)'' (durationNs t2 toolStart)
                          toolStart [''tool'', ''conversion'', ''error'']))
                    (\<lambda>_ s4. (Inl error, s4)) s3))))"

subsection \<open>Steps 8 to 10: the callbacks of the stream\<close>

record usage =
  inputTokens :: "nat option"
  outputTokens :: "nat option"
  totalTokens :: "nat option"

definition MODEL_NAME :: string where
  "MODEL_NAME = ''gpt-4o''"

text \<open>
  \<open>onFinish\<close> logs the LLM span, concludes and awaits the flush; an exception of one call
  skips the calls after it. The second tag is \<open>MODEL_NAME.toLowerCase()\<close>, which is the
  model name itself.
\<close>

definition onFinish :: "env \<Rightarrow> stream \<Rightarrow> string \<Rightarrow> usage option \<Rightarrow> unit action" where
  "onFinish env st txt usg s =
     (case now env s of (t, s1) \<Rightarrow>
        and_then
          (logger_call env
             (AddLlmSpan (transcript (messages st)) (''assistant'', txt) MODEL_NAME
                (MODEL_NAME @ '' Chat Completion'') (durationNs t (agentStartTime st))
                (Option.bind usg inputTokens) (Option.bind usg outputTokens)
                (Option.bind usg totalTokens) [''llm'', ''gpt-4o'']))
          (\<lambda>_. and_then
             (logger_call env (Conclude (js_or (Some txt) ''Chat completed successfully'')))
             (\<lambda>_. and_then (logger_call env Flush) (\<lambda>_ s'. (Inr (), s')))) s1)"

text \<open>
  \<open>onError\<close> concludes and starts the flush without awaiting it: a flush that fails
  does not throw into the callback.
\<close>

definition onError :: "env \<Rightarrow> thrown \<Rightarrow> unit action" where
  "onError env error s =
     and_then (logger_call env (Conclude (''Error: '' @ error_message error)))
       (\<lambda>_ s1. (Inr (), snd (logger_call env Flush s1))) s"

subsection \<open>The provider and a whole request\<close>

text \<open>
  What the provider does with the stream it was given: it runs a tool, finishes with
  the final text and the usage, or fails with an error. Whatever a tool or a callback
  returns or throws goes to the provider.
\<close>

datatype tool_call = Weather string jsnumber | ConvertFahrenheitToCelsius jsnumber jsnumber

text \<open>The \<open>tools\<close> object: \<open>weather\<close> and \<open>convertFahrenheitToCelsius\<close> with their \<open>execute\<close>.\<close>

fun execute :: "env \<Rightarrow> tool_call \<Rightarrow> jsobject action" where
  "execute env (Weather location temperature) s = weatherTool env location temperature s"
| "execute env (ConvertFahrenheitToCelsius temperature celsius) s =
     convertTool env temperature celsius s"

datatype provider_event =
    Exec tool_call
  | Finish string "usage option"
  | StreamError thrown

fun provider_step :: "env \<Rightarrow> stream \<Rightarrow> provider_event \<Rightarrow> state \<Rightarrow> state" where
  "provider_step env st (Exec tc) s = snd (execute env tc s)"
| "provider_step env st (Finish txt usg) s = snd (onFinish env st txt usg s)"
| "provider_step env st (StreamError error) s = snd (onError env error s)"

fun run_stream :: "env \<Rightarrow> stream \<Rightarrow> provider_event list \<Rightarrow> state \<Rightarrow> state" where
  "run_stream env st [] s = s"
| "run_stream env st (ev # evs) s = run_stream env st evs (provider_step env st ev s)"

definition run_request ::
  "env \<Rightarrow> body \<Rightarrow> provider_event list \<Rightarrow> state \<Rightarrow> (thrown + stream) \<times> state" where
  "run_request env req evs s =
     (case POST env req s of
        (Inl error, s') \<Rightarrow> (Inl error, s')
      | (Inr st, s') \<Rightarrow> (Inr st, run_stream env st evs s'))"

text \<open>The events a run added to the log.\<close>

definition events_since :: "state \<Rightarrow> state \<Rightarrow> event list" where
  "events_since s s' = drop (length (events s)) (events s')"

subsection \<open>Reading the log\<close>

text \<open>
  The calls a log holds, in order: all that were made (\<open>invoked\<close>), and those that
  returned (\<open>emitted\<close>): a call that threw has emitted nothing.
\<close>

fun invoked :: "event list \<Rightarrow> call list" where
  "invoked [] = []"
| "invoked (Call c r # es) = c # invoked es"
| "invoked (ConsoleError e # es) = invoked es"

fun emitted :: "event list \<Rightarrow> call list" where
  "emitted [] = []"
| "emitted (Call c (Returns v) # es) = c # emitted es"
| "emitted (Call c (Throws e) # es) = emitted es"
| "emitted (ConsoleError e # es) = emitted es"

fun threw :: "event list \<Rightarrow> call list" where
  "threw [] = []"
| "threw (Call c (Throws e) # es) = c # threw es"
| "threw (Call c (Returns v) # es) = threw es"
| "threw (ConsoleError e # es) = threw es"

fun is_start_session :: "call \<Rightarrow> bool" where
  "is_start_session (StartSession n) = True"
| "is_start_session c = False"

fun is_set_session :: "call \<Rightarrow> bool" where
  "is_set_session (SetSessionId i) = True"
| "is_set_session c = False"

fun is_tool_span :: "call \<Rightarrow> bool" where
  "is_tool_span (AddToolSpan i out n d t tags) = True"
| "is_tool_span c = False"

fun is_llm_span :: "call \<Rightarrow> bool" where
  "is_llm_span (AddLlmSpan i out m n d ti to tt tags) = True"
| "is_llm_span c = False"

fun is_conclude :: "call \<Rightarrow> bool" where
  "is_conclude (Conclude out) = True"
| "is_conclude c = False"

fun span_tags :: "call \<Rightarrow> string list" where
  "span_tags (AddAgentSpan i n t tags) = tags"
| "span_tags (AddToolSpan i out n d t tags) = tags"
| "span_tags (AddLlmSpan i out m n d ti to tt tags) = tags"
| "span_tags c = []"

fun span_output :: "call \<Rightarrow> string option" where
  "span_output (AddToolSpan i out n d t tags) = Some out"
| "span_output (AddLlmSpan i out m n d ti to tt tags) = Some (snd out)"
| "span_output (Conclude out) = Some out"
| "span_output c = None"

fun span_duration :: "call \<Rightarrow> int option" where
  "span_duration (AddToolSpan i out n d t tags) = Some d"
| "span_duration (AddLlmSpan i out m n d ti to tt tags) = Some d"
| "span_duration c = None"

fun span_createdAt :: "call \<Rightarrow> int option" where
  "span_createdAt (AddAgentSpan i n t tags) = Some t"
| "span_createdAt (AddToolSpan i out n d t tags) = Some t"
| "span_createdAt c = None"

text \<open>
  A span's duration comes from two readings of the clock: readings \<open>k\<close> and \<open>j\<close> with
  \<open>lo \<le> k < j < hi\<close>; for a tool span reading \<open>k\<close> is its \<open>createdAt\<close> and \<open>j\<close> is one or two
  readings later, for the LLM span \<open>k\<close> is the reading \<open>a\<close>.
\<close>

definition duration_of_readings :: "env \<Rightarrow> nat \<Rightarrow> nat \<Rightarrow> nat \<Rightarrow> call \<Rightarrow> bool" where
  "duration_of_readings env a lo hi c =
     (case span_duration c of
        None \<Rightarrow> True
      | Some d \<Rightarrow>
          (\<exists>k j. lo \<le> k \<and> k < j \<and> j < hi
             \<and> d = durationNs (clock env j) (clock env k)
             \<and> (is_tool_span c \<longrightarrow> span_createdAt c = Some (clock env k) \<and> j \<le> k + 2)
             \<and> (is_llm_span c \<longrightarrow> k = a)))"

text \<open>
  In a log, every \<open>flush\<close> call comes directly after a \<open>conclude\<close> call that returned; the
  flag says whether the event before the log was such a call.
\<close>

fun is_flush_event :: "event \<Rightarrow> bool" where
  "is_flush_event (Call Flush r) = True"
| "is_flush_event e = False"

fun returned_conclude :: "event \<Rightarrow> bool" where
  "returned_conclude (Call (Conclude out) (Returns v)) = True"
| "returned_conclude e = False"

fun flush_after :: "bool \<Rightarrow> event list \<Rightarrow> bool" where
  "flush_after p [] = True"
| "flush_after p (e # es) =
     ((if is_flush_event e then p else True) \<and> flush_after (returned_conclude e) es)"

text \<open>The errors the provider reported to \<open>onError\<close>, and whether it called \<open>onFinish\<close>.\<close>

fun stream_errors :: "provider_event list \<Rightarrow> thrown list" where
  "stream_errors [] = []"
| "stream_errors (StreamError e # evs) = e # stream_errors evs"
| "stream_errors (ev # evs) = stream_errors evs"

fun is_finish :: "provider_event \<Rightarrow> bool" where
  "is_finish (Finish t u) = True"
| "is_finish ev = False"

text \<open>The first exception among the replies to the calls \<open>n, ..., n + k - 1\<close>.\<close>

fun first_throw :: "(nat \<Rightarrow> reply) \<Rightarrow> nat \<Rightarrow> nat \<Rightarrow> thrown option" where
  "first_throw r n 0 = None"
| "first_throw r n (Suc k) =
     (case r n of Throws e \<Rightarrow> Some e | Returns v \<Rightarrow> first_throw r (Suc n) k)"

subsection \<open>The trace input in the specification's words\<close>

text \<open>
  The texts of the text parts of a message, in order, and the texts the user wrote in a
  conversation. \<open>claimed_trace_input\<close> is the trace input as the specification words it: the
  last text content the user wrote, or the placeholder when there is none. It is compared
  with \<open>trace_input\<close>, which is what the handler computes.
\<close>

fun part_texts :: "UIPart list \<Rightarrow> string list" where
  "part_texts [] = []"
| "part_texts (p # ps) =
     (if ptype p = ''text''
      then (case ptext p of None \<Rightarrow> part_texts ps | Some t \<Rightarrow> t # part_texts ps)
      else part_texts ps)"

definition message_texts :: "UIMessage \<Rightarrow> string list" where
  "message_texts m = (case parts m of None \<Rightarrow> [] | Some ps \<Rightarrow> part_texts ps)"

definition user_texts :: "UIMessage list \<Rightarrow> string list" where
  "user_texts msgs = concat (map message_texts (filter (\<lambda>m. role m = ''user'') msgs))"

definition claimed_trace_input :: "UIMessage list \<Rightarrow> string" where
  "claimed_trace_input msgs =
     (if user_texts msgs = [] then ''Chat request'' else last (user_texts msgs))"

subsection \<open>Reading a serialised conversation back\<close>

text \<open>
  The repository serialises the conversation for the agent span and never reads it
  back. \<open>parse_transcript\<close> is the reading the round-trip claim speaks of: it accepts a
  JSON array of objects with the two string fields \<open>role\<close> and \<open>content\<close>, in this order,
  written without white space, and undoes the escapes of \<open>JSON.parse\<close> on code units
  below \<open>0x100\<close>. The array has fewer elements than characters, which bounds the loop.
  \<open>text_view\<close> is what the claim expects back: for every message its role and the texts
  of its text parts.
\<close>

definition hex_value :: "char \<Rightarrow> nat option" where
  "hex_value c =
     (let k = (of_char c :: nat)
      in if 48 \<le> k \<and> k \<le> 57 then Some (k - 48)
         else if 97 \<le> k \<and> k \<le> 102 then Some (k - 87)
         else if 65 \<le> k \<and> k \<le> 70 then Some (k - 55)
         else None)"

definition unescape :: "char \<Rightarrow> char option" where
  "unescape e =
     (if e = CHR 0x22 then Some (CHR 0x22)
      else if e = CHR 0x5C then Some (CHR 0x5C)
      else if e = CHR ''/'' then Some (CHR ''/'')
      else if e = CHR ''b'' then Some (CHR 0x08)
      else if e = CHR ''f'' then Some (CHR 0x0C)
      else if e = CHR ''n'' then Some (CHR 0x0A)
      else if e = CHR ''r'' then Some (CHR 0x0D)
      else if e = CHR ''t'' then Some (CHR 0x09)
      else None)"

definition unicode_escape :: "char \<Rightarrow> char \<Rightarrow> char \<Rightarrow> char \<Rightarrow> char option" where
  "unicode_escape a b c d =
     (case (hex_value a, hex_value b, hex_value c, hex_value d) of
        (Some x, Some y, Some z, Some w) \<Rightarrow>
          (if x = 0 \<and> y = 0 then Some (char_of (16 * z + w)) else None)
      | _ \<Rightarrow> None)"

fun unquote :: "string \<Rightarrow> (string \<times> string) option" where
  "unquote [] = None"
| "unquote (c # cs) =
     (if c = CHR 0x22 then Some ([], cs)
      else if c = CHR 0x5C then
        (case cs of
           [] \<Rightarrow> None
         | e # r \<Rightarrow>
             if e = CHR ''u'' then
               (case r of
                  h1 # h2 # h3 # h4 # r' \<Rightarrow>
                    (case unicode_escape h1 h2 h3 h4 of
                       None \<Rightarrow> None
                     | Some ch \<Rightarrow> map_option (\<lambda>(t, rest). (ch # t, rest)) (unquote r'))
                | _ \<Rightarrow> None)
             else
               (case unescape e of
                  None \<Rightarrow> None
                | Some ch \<Rightarrow> map_option (\<lambda>(t, rest). (ch # t, rest)) (unquote r)))
      else map_option (\<lambda>(t, rest). (c # t, rest)) (unquote cs))"

definition expect :: "char \<Rightarrow> string \<Rightarrow> string option" where
  "expect c s = (case s of [] \<Rightarrow> None | x # xs \<Rightarrow> if x = c then Some xs else None)"

definition parse_string :: "string \<Rightarrow> (string \<times> string) option" where
  "parse_string s = Option.bind (expect (CHR 0x22) s) unquote"

definition parse_field :: "string \<Rightarrow> string \<Rightarrow> (string \<times> string) option" where
  "parse_field key s =
     Option.bind (parse_string s) (\<lambda>(k, s1).
       if k \<noteq> key then None
       else Option.bind (expect (CHR '':'') s1) parse_string)"

definition parse_message :: "string \<Rightarrow> ((string \<times> string) \<times> string) option" where
  "parse_message s =
     Option.bind (expect (CHR ''{'') s) (\<lambda>s1.
     Option.bind (parse_field ''role'' s1) (\<lambda>(r, s2).
     Option.bind (expect (CHR '','') s2) (\<lambda>s3.
     Option.bind (parse_field ''content'' s3) (\<lambda>(c, s4).
     Option.bind (expect (CHR ''}'') s4) (\<lambda>s5. Some ((r, c), s5))))))"

fun parse_elements :: "nat \<Rightarrow> string \<Rightarrow> (string \<times> string) list option" where
  "parse_elements 0 s = None"
| "parse_elements (Suc n) s =
     (case parse_message s of
        None \<Rightarrow> None
      | Some (m, rest) \<Rightarrow>
          if rest = '']'' then Some [m]
          else Option.bind (expect (CHR '','') rest)
                 (\<lambda>more. map_option (Cons m) (parse_elements n more)))"

definition parse_transcript :: "string \<Rightarrow> (string \<times> string) list option" where
  "parse_transcript s =
     Option.bind (expect (CHR ''['') s) (\<lambda>s1.
       if s1 = '']'' then Some [] else parse_elements (length s1) s1)"

definition message_object :: "string \<times> string \<Rightarrow> jsobject" where
  "message_object rc = [(''role'', JString (fst rc)), (''content'', JString (snd rc))]"

definition text_view :: "UIMessage list \<Rightarrow> (string \<times> string list) list" where
  "text_view msgs = map (\<lambda>m. (role m, message_texts m)) msgs"

subsection \<open>Sample inputs\<close>

text \<open>
  A process that has served no request yet, a logger that answers every call with the
  string \<open>session-1\<close>, a logger that throws at every call, and two conversations.
\<close>

definition fresh_state :: state where
  "fresh_state = \<lparr>events = [], ncalls = 0, nreads = 0, chatSessionMap = Map.empty\<rparr>"

definition steady_env :: env where
  "steady_env =
     \<lparr>replies = (\<lambda>n. Returns ''session-1''), clock = (\<lambda>n. 1000 + 7 * int n),
      streamText_throws = None\<rparr>"

definition failing_env :: env where
  "failing_env =
     \<lparr>replies = (\<lambda>n. Throws (ErrorObj ''backend down'')), clock = (\<lambda>n. 1000 + 7 * int n),
      streamText_throws = None\<rparr>"

text \<open>A logger that throws at its fifth call only, the first after the handler's four.\<close>

definition flaky_env :: env where
  "flaky_env =
     \<lparr>replies = (\<lambda>n. if n = 4 then Throws (ErrorObj ''span rejected'') else Returns ''session-1''),
      clock = (\<lambda>n. 1000 + 7 * int n), streamText_throws = None\<rparr>"

text \<open>
  A logger that answers the four calls of the handler and throws at every call after
  them, and a clock that runs backwards.
\<close>

definition rejecting_env :: env where
  "rejecting_env =
     \<lparr>replies = (\<lambda>n. if n < 4 then Returns ''session-1''
                      else if n = 4 then Throws (ErrorObj ''span rejected'')
                      else Throws (ErrorObj ''error span rejected'')),
      clock = (\<lambda>n. 1000 + 7 * int n), streamText_throws = None\<rparr>"

definition backward_env :: env where
  "backward_env =
     \<lparr>replies = (\<lambda>n. Returns ''session-1''), clock = (\<lambda>n. 1000 - 7 * int n),
      streamText_throws = None\<rparr>"

definition boston_chat :: "UIMessage list" where
  "boston_chat =
     [UIMessage ''user'' (Some [UIPart ''text'' (Some ''What is the weather in Boston?'')])]"

definition answered_chat :: "UIMessage list" where
  "answered_chat =
     [UIMessage ''user'' (Some [UIPart ''text'' (Some ''What is the weather in Boston?'')]),
      UIMessage ''assistant'' (Some [UIPart ''text'' (Some ''It is 70 degrees in Boston.'')])]"

section \<open>Properties\<close>

subsection \<open>What one operation adds to the log\<close>

lemma logger_call_eq:
  "logger_call env c s =
     (case replies env (ncalls s) of Returns v \<Rightarrow> Inr v | Throws e \<Rightarrow> Inl e,
      s\<lparr>events := events s @ [Call c (replies env (ncalls s))], ncalls := Suc (ncalls s)\<rparr>)"
  by (simp add: logger_call_def Let_def)

lemma resolveSession_eq:
  "resolveSession env chatId s =
     (let known = (if truthy chatId then Option.bind chatId (chatSessionMap s) else None);
          r = replies env (ncalls s)
      in (case r of Throws e \<Rightarrow> Inl e
                  | Returns v \<Rightarrow> Inr (case known of Some sid \<Rightarrow> sid | None \<Rightarrow> v),
          s\<lparr>events := events s @
                 [Call (case known of Some sid \<Rightarrow> SetSessionId sid
                                    | None \<Rightarrow> StartSession (session_name chatId)) r],
            ncalls := Suc (ncalls s),
            chatSessionMap :=
              (case r of
                 Throws e \<Rightarrow> chatSessionMap s
               | Returns v \<Rightarrow>
                   (case known of
                      Some sid \<Rightarrow> chatSessionMap s
                    | None \<Rightarrow>
                        (case chatId of
                           None \<Rightarrow> chatSessionMap s
                         | Some c \<Rightarrow> if c = [] then chatSessionMap s
                                     else (chatSessionMap s)(c \<mapsto> v))))\<rparr>))"
  by (cases chatId; cases "replies env (ncalls s)")
     (auto simp: resolveSession_def logger_call_eq and_then_def truthy_def Let_def
        split: option.splits)

lemma execute_eq:
  "\<exists>i o1 n1 g1 n2 g2 res.
     ''error'' \<notin> set g1 \<and> ''error'' \<in> set g2 \<and>
     execute env tc s =
       (let t0 = clock env (nreads s);
            c1 = AddToolSpan i o1 n1 (durationNs (clock env (Suc (nreads s))) t0) t0 g1
        in case replies env (ncalls s) of
             Returns v \<Rightarrow>
               (Inr res, s\<lparr>events := events s @ [Call c1 (Returns v)],
                           ncalls := Suc (ncalls s), nreads := Suc (Suc (nreads s))\<rparr>)
           | Throws e \<Rightarrow>
               (case replies env (Suc (ncalls s)) of Returns v \<Rightarrow> Inl e | Throws e2 \<Rightarrow> Inl e2,
                s\<lparr>events := events s @
                     [Call c1 (Throws e),
                      Call (AddToolSpan i (stringify_object [(''error'', JString (error_message e))])
                              n2 (durationNs (clock env (Suc (Suc (nreads s)))) t0) t0 g2)
                        (replies env (Suc (ncalls s)))],
                  ncalls := Suc (Suc (ncalls s)), nreads := Suc (Suc (Suc (nreads s)))\<rparr>))"
proof (cases tc)
  case (Weather location temperature)
  show ?thesis
    unfolding Weather
    apply (rule exI[of _ "stringify_object [(''location'', JString location)]"])
    apply (rule exI[of _ "stringify_object [(''location'', JString location), (''temperature'', JNumber temperature)]"])
    apply (rule exI[of _ "''Weather Tool''"])
    apply (rule exI[of _ "[''tool'', ''weather'']"])
    apply (rule exI[of _ "''Weather Tool (Error)''"])
    apply (rule exI[of _ "[''tool'', ''weather'', ''error'']"])
    apply (rule exI[of _ "[(''location'', JString location), (''temperature'', JNumber temperature)]"])
    by (cases "replies env (ncalls s)"; cases "replies env (Suc (ncalls s))")
       (simp_all add: weatherTool_def now_def logger_call_eq and_then_def Let_def)
next
  case (ConvertFahrenheitToCelsius temperature celsius)
  show ?thesis
    unfolding ConvertFahrenheitToCelsius
    apply (rule exI[of _ "stringify_object [(''temperature'', JNumber temperature)]"])
    apply (rule exI[of _ "stringify_object [(''celsius'', JNumber celsius)]"])
    apply (rule exI[of _ "''Temperature Conversion Tool''"])
    apply (rule exI[of _ "[''tool'', ''conversion'']"])
    apply (rule exI[of _ "''Temperature Conversion Tool (Error)''"])
    apply (rule exI[of _ "[''tool'', ''conversion'', ''error'']"])
    apply (rule exI[of _ "[(''celsius'', JNumber celsius)]"])
    by (cases "replies env (ncalls s)"; cases "replies env (Suc (ncalls s))")
       (simp_all add: convertTool_def now_def logger_call_eq and_then_def Let_def)
qed

lemma onFinish_eq:
  "onFinish env st txt usg s =
     (let c1 = AddLlmSpan (transcript (messages st)) (''assistant'', txt) MODEL_NAME
                (MODEL_NAME @ '' Chat Completion'')
                (durationNs (clock env (nreads s)) (agentStartTime st))
                (Option.bind usg inputTokens) (Option.bind usg outputTokens)
                (Option.bind usg totalTokens) [''llm'', ''gpt-4o''];
          c2 = Conclude (if txt = [] then ''Chat completed successfully'' else txt);
          r1 = replies env (ncalls s); r2 = replies env (Suc (ncalls s));
          r3 = replies env (Suc (Suc (ncalls s)))
      in case r1 of
           Throws e \<Rightarrow> (Inl e, s\<lparr>events := events s @ [Call c1 r1], ncalls := Suc (ncalls s),
                                 nreads := Suc (nreads s)\<rparr>)
         | Returns v1 \<Rightarrow>
             (case r2 of
                Throws e \<Rightarrow> (Inl e, s\<lparr>events := events s @ [Call c1 r1, Call c2 r2],
                                      ncalls := Suc (Suc (ncalls s)), nreads := Suc (nreads s)\<rparr>)
              | Returns v2 \<Rightarrow>
                  (case r3 of Throws e \<Rightarrow> Inl e | Returns v3 \<Rightarrow> Inr (),
                   s\<lparr>events := events s @ [Call c1 r1, Call c2 r2, Call Flush r3],
                     ncalls := Suc (Suc (Suc (ncalls s))), nreads := Suc (nreads s)\<rparr>)))"
  by (cases "replies env (ncalls s)"; cases "replies env (Suc (ncalls s))";
      cases "replies env (Suc (Suc (ncalls s)))")
     (simp_all add: onFinish_def now_def logger_call_eq and_then_def Let_def js_or_def)

lemma onError_eq:
  "onError env error s =
     (let c1 = Conclude (''Error: '' @ error_message error);
          r1 = replies env (ncalls s); r2 = replies env (Suc (ncalls s))
      in case r1 of
           Throws e \<Rightarrow> (Inl e, s\<lparr>events := events s @ [Call c1 r1], ncalls := Suc (ncalls s)\<rparr>)
         | Returns v1 \<Rightarrow>
             (Inr (), s\<lparr>events := events s @ [Call c1 r1, Call Flush r2],
                        ncalls := Suc (Suc (ncalls s))\<rparr>))"
  by (cases "replies env (ncalls s)")
     (simp_all add: onError_def logger_call_eq and_then_def Let_def)

lemma POST_eq:
  "POST env (Body msgs chatId) s =
     (let known = (if truthy chatId then Option.bind chatId (chatSessionMap s) else None);
          n = ncalls s;
          c0 = (case known of Some sid \<Rightarrow> SetSessionId sid
                            | None \<Rightarrow> StartSession (session_name chatId));
          c1 = StartTrace (trace_input msgs) ''Chat Exchange'';
          c2 = AddWorkflowSpan ''Processing chat request with agent decision-making''
                 ''Chat Processing Workflow'';
          c3 = AddAgentSpan (agent_input msgs) ''Weather Agent'' (clock env (nreads s))
                 [''agent'', ''tool-selection''];
          m = chatSessionMap s;
          m' = (\<lambda>v. case known of
                  Some sid \<Rightarrow> m
                | None \<Rightarrow> (case chatId of None \<Rightarrow> m
                           | Some c \<Rightarrow> if c = [] then m else m(c \<mapsto> v)))
      in case replies env n of
           Throws e \<Rightarrow>
             (Inl e, \<lparr>events = events s @ [Call c0 (Throws e), ConsoleError e],
                      ncalls = n + 1, nreads = nreads s, chatSessionMap = m\<rparr>)
         | Returns v0 \<Rightarrow>
        (case replies env (n + 1) of
           Throws e \<Rightarrow>
             (Inl e, \<lparr>events = events s @ [Call c0 (Returns v0), Call c1 (Throws e), ConsoleError e],
                      ncalls = n + 2, nreads = nreads s, chatSessionMap = m' v0\<rparr>)
         | Returns v1 \<Rightarrow>
        (case replies env (n + 2) of
           Throws e \<Rightarrow>
             (Inl e, \<lparr>events = events s @ [Call c0 (Returns v0), Call c1 (Returns v1),
                                           Call c2 (Throws e), ConsoleError e],
                      ncalls = n + 3, nreads = nreads s, chatSessionMap = m' v0\<rparr>)
         | Returns v2 \<Rightarrow>
        (case replies env (n + 3) of
           Throws e \<Rightarrow>
             (Inl e, \<lparr>events = events s @ [Call c0 (Returns v0), Call c1 (Returns v1),
                                           Call c2 (Returns v2), Call c3 (Throws e), ConsoleError e],
                      ncalls = n + 4, nreads = nreads s + 1, chatSessionMap = m' v0\<rparr>)
         | Returns v3 \<Rightarrow>
        (case streamText_throws env of
           Some e \<Rightarrow>
             (Inl e, \<lparr>events = events s @ [Call c0 (Returns v0), Call c1 (Returns v1),
                                           Call c2 (Returns v2), Call c3 (Returns v3), ConsoleError e],
                      ncalls = n + 4, nreads = nreads s + 1, chatSessionMap = m' v0\<rparr>)
         | None \<Rightarrow>
             (Inr \<lparr>messages = msgs, agentStartTime = clock env (nreads s)\<rparr>,
              \<lparr>events = events s @ [Call c0 (Returns v0), Call c1 (Returns v1),
                                    Call c2 (Returns v2), Call c3 (Returns v3)],
                ncalls = n + 4, nreads = nreads s + 1, chatSessionMap = m' v0\<rparr>))))))"
  by (cases "replies env (ncalls s)"; cases "replies env (Suc (ncalls s))";
      cases "replies env (Suc (Suc (ncalls s)))"; cases "replies env (Suc (Suc (Suc (ncalls s))))";
      cases "streamText_throws env")
     (simp_all add: POST_def POST_try_def resolveSession_eq and_then_def logger_call_eq now_def
        Let_def numeral_2_eq_2 numeral_3_eq_3 split: option.splits)

lemma POST_Malformed: "POST env (Malformed e) s = (Inl e, s\<lparr>events := events s @ [ConsoleError e]\<rparr>)"
  by (simp add: POST_def POST_try_def)

lemma events_since_append: "events s' = events s @ es \<Longrightarrow> events_since s s' = es"
  by (simp add: events_since_def)

lemma POST_appends:
  "POST env req s = (r, s') \<Longrightarrow> \<exists>es. events s' = events s @ es"
  by (cases req) (auto simp: POST_eq POST_Malformed Let_def split: reply.splits option.splits)

lemma invoked_append: "invoked (a @ b) = invoked a @ invoked b"
  by (induction a rule: invoked.induct) simp_all

lemma emitted_append: "emitted (a @ b) = emitted a @ emitted b"
  by (induction a rule: emitted.induct) simp_all

lemma threw_append: "threw (a @ b) = threw a @ threw b"
  by (induction a rule: threw.induct) simp_all

lemma run_stream_append:
  "run_stream env st (xs @ ys) s = run_stream env st ys (run_stream env st xs s)"
  by (induction xs arbitrary: s) simp_all

lemma execute_appends:
  "\<exists>es. events (snd (execute env tc s)) = events s @ es \<and> list_all is_tool_span (invoked es)
        \<and> nreads s \<le> nreads (snd (execute env tc s))"
proof -
  obtain i o1 n1 g1 n2 g2 res where
    "execute env tc s =
       (let t0 = clock env (nreads s);
            c1 = AddToolSpan i o1 n1 (durationNs (clock env (Suc (nreads s))) t0) t0 g1
        in case replies env (ncalls s) of
             Returns v \<Rightarrow>
               (Inr res, s\<lparr>events := events s @ [Call c1 (Returns v)],
                           ncalls := Suc (ncalls s), nreads := Suc (Suc (nreads s))\<rparr>)
           | Throws e \<Rightarrow>
               (case replies env (Suc (ncalls s)) of Returns v \<Rightarrow> Inl e | Throws e2 \<Rightarrow> Inl e2,
                s\<lparr>events := events s @
                     [Call c1 (Throws e),
                      Call (AddToolSpan i (stringify_object [(''error'', JString (error_message e))])
                              n2 (durationNs (clock env (Suc (Suc (nreads s)))) t0) t0 g2)
                        (replies env (Suc (ncalls s)))],
                  ncalls := Suc (Suc (ncalls s)), nreads := Suc (Suc (Suc (nreads s)))\<rparr>))"
    using execute_eq[of env tc s] by blast
  then show ?thesis
    by (cases "replies env (ncalls s)") (simp_all add: Let_def)
qed

lemma run_tools_appends:
  "\<exists>es. events (run_stream env st (map Exec tcs) s) = events s @ es
        \<and> list_all is_tool_span (invoked es)"
proof (induction tcs arbitrary: s)
  case Nil
  show ?case by simp
next
  case (Cons tc tcs)
  obtain es1 where 1: "events (snd (execute env tc s)) = events s @ es1"
      "list_all is_tool_span (invoked es1)"
    using execute_appends[of env tc s] by blast
  obtain es2 where 2: "events (run_stream env st (map Exec tcs) (snd (execute env tc s))) =
      events (snd (execute env tc s)) @ es2" "list_all is_tool_span (invoked es2)"
    using Cons.IH[of "snd (execute env tc s)"] by blast
  show ?case
    using 1 2 by (intro exI[of _ "es1 @ es2"]) (simp add: invoked_append)
qed

lemma POST_returned:
  assumes "POST env req s = (Inr st, s')"
  shows "\<exists>msgs chatId c0 v0 v1 v2 v3.
     req = Body msgs chatId \<and> ((\<exists>n. c0 = StartSession n) \<or> (\<exists>i. c0 = SetSessionId i))
     \<and> events s' = events s @
         [Call c0 (Returns v0), Call (StartTrace (trace_input msgs) ''Chat Exchange'') (Returns v1),
          Call (AddWorkflowSpan ''Processing chat request with agent decision-making''
                  ''Chat Processing Workflow'') (Returns v2),
          Call (AddAgentSpan (agent_input msgs) ''Weather Agent'' (clock env (nreads s))
                  [''agent'', ''tool-selection'']) (Returns v3)]
     \<and> st = \<lparr>messages = msgs, agentStartTime = clock env (nreads s)\<rparr>
     \<and> nreads s' = Suc (nreads s)"
proof (cases req)
  case (Malformed e)
  then show ?thesis using assms by (simp add: POST_Malformed)
next
  case (Body msgs chatId)
  show ?thesis
    using assms unfolding Body
    by (auto simp: POST_eq Let_def split: reply.splits option.splits)
qed

lemma POST_returned_calls:
  assumes "POST env req s = (Inr st, s')"
  shows "\<exists>es. events s' = events s @ es \<and> threw es = []
       \<and> filter is_conclude (invoked es) = [] \<and> filter is_llm_span (invoked es) = []
       \<and> filter is_tool_span (invoked es) = [] \<and> Flush \<notin> set (invoked es)"
  using POST_returned[OF assms] by auto

lemma tool_spans_only:
  "list_all is_tool_span cs \<Longrightarrow>
   filter is_conclude cs = [] \<and> filter is_llm_span cs = [] \<and> Flush \<notin> set cs"
  by (induction cs) (auto elim: is_tool_span.elims)

lemma run_request_returned:
  assumes "run_request env req evs s = (Inr st, s')"
  shows "\<exists>s1. POST env req s = (Inr st, s1) \<and> s' = run_stream env st evs s1"
  using assms by (auto simp: run_request_def split: prod.splits sum.splits)

lemma POST_no_durations:
  assumes "POST env req s = (r, s')"
  shows "\<exists>es. events s' = events s @ es \<and> (\<forall>c \<in> set (invoked es). span_duration c = None)"
proof (cases req)
  case (Malformed e)
  then show ?thesis using assms by (auto simp: POST_Malformed)
next
  case (Body msgs chatId)
  show ?thesis
    using assms unfolding Body
    by (auto simp: POST_eq Let_def split: reply.splits option.splits)
qed

subsection \<open>Doubles and clock readings\<close>

text \<open>Up to \<open>9007199254\<close> ms of difference the product is below \<open>2^53\<close> and exact.\<close>

lemma two_53: "(2::int) ^ 53 = 9007199254740992"
  by simp

lemma durationNs_exact:
  assumes "\<bar>t - start\<bar> \<le> 9007199254"
  shows "durationNs t start = (t - start) * 1000000"
proof -
  have a: "\<bar>t - start\<bar> < 2 ^ 53"
    using assms by (simp add: two_53)
  have "\<bar>(t - start) * 1000000\<bar> = \<bar>t - start\<bar> * 1000000"
    by (simp only: abs_mult abs_numeral)
  moreover have "\<bar>t - start\<bar> * 1000000 \<le> 9007199254 * 1000000"
    using assms by (intro mult_right_mono) simp_all
  ultimately have b: "\<bar>(t - start) * 1000000\<bar> < 2 ^ 53"
    by (simp only: two_53)
  show ?thesis
    using a b by (simp only: durationNs_def to_double_def if_True)
qed

text \<open>
  Above \<open>2^53\<close> the product is rounded: a difference of \<open>576460752305\<close> ms, some 18 years, gives
  a duration that is not a multiple of \<open>1000000\<close>.
\<close>

lemma bit_length_example: "bit_length 576460752305000000 = 60"
  by (simp add: bit_length.simps)

lemma durationNs_rounded_for_large_differences:
  "durationNs 576460752305 0 = 576460752304999936
   \<and> \<not> 1000000 dvd durationNs 576460752305 0"
  by (simp add: durationNs_def to_double_def bit_length_example round_half_even_def Let_def)

lemma duration_of_readings_mono:
  assumes "duration_of_readings env a lo hi c" and "lo' \<le> lo" and "hi \<le> hi'"
  shows "duration_of_readings env a lo' hi' c"
proof (cases "span_duration c")
  case None
  then show ?thesis by (simp add: duration_of_readings_def)
next
  case (Some d)
  then obtain k j where kj: "lo \<le> k" "k < j" "j < hi" "d = durationNs (clock env j) (clock env k)"
      "is_tool_span c \<longrightarrow> span_createdAt c = Some (clock env k) \<and> j \<le> k + 2"
      "is_llm_span c \<longrightarrow> k = a"
    using assms(1) by (auto simp: duration_of_readings_def)
  have "lo' \<le> k" "j < hi'" using kj(1,3) assms(2,3) by simp_all
  then show ?thesis
    using Some kj(2,4,5,6) by (auto simp: duration_of_readings_def)
qed

lemma duration_of_readings_tool:
  assumes "lo \<le> k" and "k < j" and "j \<le> k + 2" and "j < hi"
  shows "duration_of_readings env a lo hi
     (AddToolSpan i out n (durationNs (clock env j) (clock env k)) (clock env k) g)"
proof -
  have "\<exists>k' j'. lo \<le> k' \<and> k' < j' \<and> j' < hi
          \<and> durationNs (clock env j) (clock env k) = durationNs (clock env j') (clock env k')
          \<and> clock env k = clock env k' \<and> j' \<le> k' + 2"
    by (rule exI[of _ k], rule exI[of _ j]) (use assms in simp)
  then show ?thesis
    by (simp add: duration_of_readings_def)
qed

lemma duration_of_readings_llm:
  assumes "lo \<le> a" and "a < j" and "j < hi"
  shows "duration_of_readings env a lo hi
     (AddLlmSpan i out m n (durationNs (clock env j) (clock env a)) ti to tt g)"
proof -
  have "\<exists>k' j'. lo \<le> k' \<and> k' < j' \<and> j' < hi
          \<and> durationNs (clock env j) (clock env a) = durationNs (clock env j') (clock env k')
          \<and> k' = a"
    by (rule exI[of _ a], rule exI[of _ j]) (use assms in simp)
  then show ?thesis
    by (simp add: duration_of_readings_def)
qed

lemma duration_of_readings_other:
  "span_duration c = None \<Longrightarrow> duration_of_readings env a lo hi c"
  by (simp add: duration_of_readings_def)

lemma step_durations:
  assumes "agentStartTime st = clock env a" and "a < nreads s"
  shows "\<exists>es. events (provider_step env st ev s) = events s @ es
           \<and> nreads s \<le> nreads (provider_step env st ev s)
           \<and> list_all (duration_of_readings env a a (nreads (provider_step env st ev s)))
                (invoked es)"
proof (cases ev)
  case (Exec tc)
  obtain i o1 n1 g1 n2 g2 res where
    exq: "execute env tc s =
       (let t0 = clock env (nreads s);
            c1 = AddToolSpan i o1 n1 (durationNs (clock env (Suc (nreads s))) t0) t0 g1
        in case replies env (ncalls s) of
             Returns v \<Rightarrow>
               (Inr res, s\<lparr>events := events s @ [Call c1 (Returns v)],
                           ncalls := Suc (ncalls s), nreads := Suc (Suc (nreads s))\<rparr>)
           | Throws e \<Rightarrow>
               (case replies env (Suc (ncalls s)) of Returns v \<Rightarrow> Inl e | Throws e2 \<Rightarrow> Inl e2,
                s\<lparr>events := events s @
                     [Call c1 (Throws e),
                      Call (AddToolSpan i (stringify_object [(''error'', JString (error_message e))])
                              n2 (durationNs (clock env (Suc (Suc (nreads s)))) t0) t0 g2)
                        (replies env (Suc (ncalls s)))],
                  ncalls := Suc (Suc (ncalls s)), nreads := Suc (Suc (Suc (nreads s)))\<rparr>))"
    using execute_eq[of env tc s] by blast
  have d1: "\<And>hi i o1 n1 g1. Suc (nreads s) < hi \<Longrightarrow> duration_of_readings env a a hi
      (AddToolSpan i o1 n1 (durationNs (clock env (Suc (nreads s))) (clock env (nreads s)))
         (clock env (nreads s)) g1)"
    using assms(2) by (intro duration_of_readings_tool) simp_all
  have d2: "\<And>hi i o1 n1 g1. Suc (Suc (nreads s)) < hi \<Longrightarrow> duration_of_readings env a a hi
      (AddToolSpan i o1 n1 (durationNs (clock env (Suc (Suc (nreads s)))) (clock env (nreads s)))
         (clock env (nreads s)) g1)"
    using assms(2) by (intro duration_of_readings_tool) simp_all
  show ?thesis
    unfolding Exec
    by (cases "replies env (ncalls s)") (simp_all add: exq Let_def d1 d2)
next
  case (Finish ftext usg)
  have d: "\<And>i out m n ti to tt g. duration_of_readings env a a (Suc (nreads s))
      (AddLlmSpan i out m n (durationNs (clock env (nreads s)) (agentStartTime st)) ti to tt g)"
    unfolding assms(1) using assms(2) by (intro duration_of_readings_llm) simp_all
  show ?thesis
    unfolding Finish
    by (cases "replies env (ncalls s)"; cases "replies env (Suc (ncalls s))")
       (simp_all add: onFinish_eq Let_def d duration_of_readings_other)
next
  case (StreamError err)
  show ?thesis
    unfolding StreamError
    by (cases "replies env (ncalls s)") (simp_all add: onError_eq Let_def duration_of_readings_other)
qed

lemma run_stream_durations:
  assumes "agentStartTime st = clock env a" and "a < nreads s"
  shows "\<exists>es. events (run_stream env st evs s) = events s @ es
           \<and> nreads s \<le> nreads (run_stream env st evs s)
           \<and> list_all (duration_of_readings env a a (nreads (run_stream env st evs s)))
                (invoked es)"
  using assms(2)
proof (induction evs arbitrary: s)
  case Nil
  show ?case by simp
next
  case (Cons ev evs)
  define s1 where "s1 = provider_step env st ev s"
  define s2 where "s2 = run_stream env st evs s1"
  obtain es1 where 1: "events s1 = events s @ es1" "nreads s \<le> nreads s1"
      "list_all (duration_of_readings env a a (nreads s1)) (invoked es1)"
    using step_durations[OF assms(1) Cons.prems, of ev] unfolding s1_def by blast
  have "a < nreads s1"
    using Cons.prems 1(2) by simp
  then obtain es2 where 2: "events s2 = events s1 @ es2" "nreads s1 \<le> nreads s2"
      "list_all (duration_of_readings env a a (nreads s2)) (invoked es2)"
    using Cons.IH[of s1] unfolding s2_def by blast
  have "list_all (duration_of_readings env a a (nreads s2)) (invoked es1)"
    using 1(3) 2(2) by (auto simp: list_all_iff intro: duration_of_readings_mono)
  then have "events s2 = events s @ (es1 @ es2) \<and> nreads s \<le> nreads s2
      \<and> list_all (duration_of_readings env a a (nreads s2)) (invoked (es1 @ es2))"
    using 1 2 by (simp add: invoked_append)
  then show ?case
    unfolding s2_def s1_def by (intro exI[of _ "es1 @ es2"]) simp
qed

subsection \<open>Callbacks in any order\<close>

lemma run_stream_no_finish:
  assumes "filter is_finish evs = []"
  shows "\<exists>es. events (run_stream env st evs s) = events s @ es
           \<and> filter is_conclude (invoked es) =
               map (\<lambda>e. Conclude (''Error: '' @ error_message e)) (stream_errors evs)
           \<and> filter is_llm_span (invoked es) = []"
  using assms
proof (induction evs arbitrary: s)
  case Nil
  show ?case by simp
next
  case (Cons ev evs)
  define s1 where "s1 = provider_step env st ev s"
  have nf: "filter is_finish evs = []" "\<not> is_finish ev"
    using Cons.prems by (auto split: if_splits)
  obtain es2 where 2: "events (run_stream env st evs s1) = events s1 @ es2"
      "filter is_conclude (invoked es2) =
         map (\<lambda>e. Conclude (''Error: '' @ error_message e)) (stream_errors evs)"
      "filter is_llm_span (invoked es2) = []"
    using Cons.IH[OF nf(1), of s1] by blast
  have "\<exists>es1. events s1 = events s @ es1
           \<and> filter is_conclude (invoked es1) =
               map (\<lambda>e. Conclude (''Error: '' @ error_message e)) (stream_errors [ev])
           \<and> filter is_llm_span (invoked es1) = []"
  proof (cases ev)
    case (Exec tc)
    obtain es where "events (snd (execute env tc s)) = events s @ es"
        "list_all is_tool_span (invoked es)"
      using execute_appends[of env tc s] by blast
    then show ?thesis
      unfolding s1_def Exec using tool_spans_only[of "invoked es"] by simp
  next
    case (Finish ftext usg)
    then show ?thesis using nf(2) by simp
  next
    case (StreamError err)
    show ?thesis
      unfolding s1_def StreamError
      by (cases "replies env (ncalls s)") (simp_all add: onError_eq Let_def)
  qed
  then obtain es1 where 1: "events s1 = events s @ es1"
      "filter is_conclude (invoked es1) =
         map (\<lambda>e. Conclude (''Error: '' @ error_message e)) (stream_errors [ev])"
      "filter is_llm_span (invoked es1) = []"
    by blast
  have se: "stream_errors (ev # evs) = stream_errors [ev] @ stream_errors evs"
    by (cases ev) simp_all
  have "events (run_stream env st (ev # evs) s) = events s @ (es1 @ es2)
      \<and> filter is_conclude (invoked (es1 @ es2)) =
               map (\<lambda>e. Conclude (''Error: '' @ error_message e)) (stream_errors (ev # evs))
      \<and> filter is_llm_span (invoked (es1 @ es2)) = []"
    using 1 2 unfolding se s1_def by (simp add: invoked_append)
  then show ?case by blast
qed

lemma flush_after_weaken: "flush_after False es \<Longrightarrow> flush_after p es"
  by (cases es) auto

lemma flush_after_append:
  "flush_after p a \<Longrightarrow> flush_after False b \<Longrightarrow> flush_after p (a @ b)"
  by (induction a arbitrary: p) (simp_all add: flush_after_weaken)

lemma flush_after_no_flush: "Flush \<notin> set (invoked es) \<Longrightarrow> flush_after p es"
proof (induction es arbitrary: p)
  case Nil
  show ?case by simp
next
  case (Cons e es)
  have "\<not> is_flush_event e"
    using Cons.prems by (cases e rule: is_flush_event.cases) simp_all
  moreover have "Flush \<notin> set (invoked es)"
    using Cons.prems by (cases e) simp_all
  ultimately show ?case using Cons.IH by simp
qed

lemma flush_after_split:
  "flush_after p es \<Longrightarrow> es = pre @ f # post \<Longrightarrow> is_flush_event f \<Longrightarrow>
   (pre = [] \<and> p) \<or> (pre \<noteq> [] \<and> returned_conclude (last pre))"
proof (induction pre arbitrary: p es)
  case Nil
  then show ?case by simp
next
  case (Cons x xs)
  obtain es' where es': "es = x # es'" "es' = xs @ f # post"
    using Cons.prems(2) by simp
  have "flush_after (returned_conclude x) es'"
    using Cons.prems(1) es'(1) by simp
  then have "(xs = [] \<and> returned_conclude x) \<or> (xs \<noteq> [] \<and> returned_conclude (last xs))"
    using Cons.IH[OF _ es'(2) Cons.prems(3)] by simp
  then show ?case by auto
qed

lemma returned_conclude_last:
  assumes "pre \<noteq> []" and "returned_conclude (last pre)"
  shows "\<exists>pre' out v. pre = pre' @ [Call (Conclude out) (Returns v)]"
proof -
  obtain out v where "last pre = Call (Conclude out) (Returns v)"
    using assms(2) by (cases "last pre" rule: returned_conclude.cases) simp_all
  then have "pre = butlast pre @ [Call (Conclude out) (Returns v)]"
    using assms(1) by (metis append_butlast_last_id)
  then show ?thesis by blast
qed

lemma step_flush_after: "\<exists>es. events (provider_step env st ev s) = events s @ es \<and> flush_after False es"
proof (cases ev)
  case (Exec tc)
  obtain es where "events (snd (execute env tc s)) = events s @ es"
      "list_all is_tool_span (invoked es)"
    using execute_appends[of env tc s] by blast
  then show ?thesis
    unfolding Exec using tool_spans_only[of "invoked es"] by (auto intro: flush_after_no_flush)
next
  case (Finish ftext usg)
  show ?thesis
    unfolding Finish
    by (cases "replies env (ncalls s)"; cases "replies env (Suc (ncalls s))")
       (simp_all add: onFinish_eq Let_def)
next
  case (StreamError err)
  show ?thesis
    unfolding StreamError
    by (cases "replies env (ncalls s)") (simp_all add: onError_eq Let_def)
qed

lemma run_stream_flush_after:
  "\<exists>es. events (run_stream env st evs s) = events s @ es \<and> flush_after False es"
proof (induction evs arbitrary: s)
  case Nil
  show ?case by simp
next
  case (Cons ev evs)
  obtain es1 where 1: "events (provider_step env st ev s) = events s @ es1" "flush_after False es1"
    using step_flush_after[of env st ev s] by blast
  obtain es2 where 2: "events (run_stream env st evs (provider_step env st ev s)) =
      events (provider_step env st ev s) @ es2" "flush_after False es2"
    using Cons.IH[of "provider_step env st ev s"] by blast
  show ?case
    using 1 2 by (intro exI[of _ "es1 @ es2"]) (simp add: flush_after_append)
qed

lemma POST_no_flush:
  assumes "POST env req s = (r, s')"
  shows "\<exists>es. events s' = events s @ es \<and> Flush \<notin> set (invoked es)"
proof (cases req)
  case (Malformed e)
  then show ?thesis using assms by (auto simp: POST_Malformed)
next
  case (Body msgs chatId)
  show ?thesis
    using assms unfolding Body
    by (auto simp: POST_eq Let_def split: reply.splits option.splits)
qed

lemma request_flush_after:
  assumes "run_request env req evs s0 = (r, s')"
  shows "flush_after False (events_since s0 s')"
proof (cases "fst (POST env req s0)")
  case (Inl e)
  then have "s' = snd (POST env req s0)"
    using assms by (simp add: run_request_def split: prod.splits)
  then obtain es where "events s' = events s0 @ es" "Flush \<notin> set (invoked es)"
    using POST_no_flush[of env req s0 "fst (POST env req s0)" "snd (POST env req s0)"] by auto
  then show ?thesis by (simp add: events_since_def flush_after_no_flush)
next
  case (Inr st)
  define s1 where "s1 = snd (POST env req s0)"
  have p: "POST env req s0 = (Inr st, s1)"
    using Inr by (simp add: s1_def prod_eq_iff)
  have s': "s' = run_stream env st evs s1"
    using assms p by (simp add: run_request_def)
  obtain es1 where es1: "events s1 = events s0 @ es1" "Flush \<notin> set (invoked es1)"
    using POST_no_flush[OF p] by blast
  obtain es2 where es2: "events s' = events s1 @ es2" "flush_after False es2"
    using run_stream_flush_after[of env st evs s1] unfolding s' by blast
  have "events_since s0 s' = es1 @ es2"
    using es1(1) es2(1) by (simp add: events_since_def)
  then show ?thesis
    using es1(2) es2(2) by (simp add: flush_after_append flush_after_no_flush)
qed

subsection \<open>C1: a failing logger and the handler's response\<close>

text \<open>
  C1 says that an exception raised while the session is resolved, the spans are opened
  or the log is flushed never keeps the handler from returning the stream. The handler's
  \<open>catch\<close> logs the exception and throws it again, so the claim fails as soon as the first
  logger call throws: here \<open>startSession\<close> fails and \<open>POST\<close> throws.
\<close>

theorem POST_throws_when_session_fails:
  "fst (POST failing_env (Body boston_chat (Some ''chat-abc123'')) fresh_state) =
     Inl (ErrorObj ''backend down'')"
  by (simp add: POST_eq failing_env_def fresh_state_def Let_def)

text \<open>
  C1, amended. The handler makes four logger calls: it resolves the session, starts the
  trace, adds the workflow span and adds the agent span. The first of them that throws
  ends the request: the exception is written with \<open>console.error\<close> and thrown out of the
  handler. When none of the four throws (and the provider's \<open>streamText\<close> does not), the
  handler returns the stream. The handler itself never calls \<open>flush\<close>: that happens
  later, in the callbacks, and cannot change what the handler returned.
\<close>

theorem POST_observability_failure:
  "fst (POST env (Body msgs chatId) s) =
     (case first_throw (replies env) (ncalls s) 4 of
        Some e \<Rightarrow> Inl e
      | None \<Rightarrow>
          (case streamText_throws env of
             Some e \<Rightarrow> Inl e
           | None \<Rightarrow> Inr \<lparr>messages = msgs, agentStartTime = clock env (nreads s)\<rparr>))
   \<and> (\<forall>e. fst (POST env (Body msgs chatId) s) = Inl e \<longrightarrow>
          last (events (snd (POST env (Body msgs chatId) s))) = ConsoleError e)
   \<and> Flush \<notin> set (invoked (events_since s (snd (POST env (Body msgs chatId) s))))"
  by (cases "replies env (ncalls s)"; cases "replies env (Suc (ncalls s))";
      cases "replies env (Suc (Suc (ncalls s)))"; cases "replies env (Suc (Suc (Suc (ncalls s))))";
      cases "streamText_throws env")
     (simp_all add: POST_eq Let_def numeral_eq_Suc events_since_def split: option.splits)

theorem POST_observability_failure_witness:
  "fst (POST failing_env (Body boston_chat None) fresh_state) = Inl (ErrorObj ''backend down'')
   \<and> last (events (snd (POST failing_env (Body boston_chat None) fresh_state))) =
       ConsoleError (ErrorObj ''backend down'')
   \<and> fst (POST steady_env (Body boston_chat None) fresh_state) =
       Inr \<lparr>messages = boston_chat, agentStartTime = 1000\<rparr>"
  using POST_observability_failure [of failing_env boston_chat None fresh_state]
        POST_observability_failure [of steady_env boston_chat None fresh_state]
  by (simp add: failing_env_def steady_env_def fresh_state_def numeral_eq_Suc)

subsection \<open>C2: the input of the trace\<close>

text \<open>
  C2 says that the trace's input is the last text the user wrote in the conversation, or
  \<open>Chat request\<close> when there is none. The handler reads the last message whatever its
  role: in a conversation that ends with an assistant message, the input is the
  assistant's text.
\<close>

theorem trace_input_not_last_user_text:
  "trace_input answered_chat
     = ''It is 70 degrees in Boston.''
   \<and> claimed_trace_input answered_chat
     = ''What is the weather in Boston?''"
  by (simp add: answered_chat_def trace_input_def last_message_def js_or_def claimed_trace_input_def user_texts_def
        message_texts_def)

lemma find_text_none: "(\<forall>p \<in> set ps. ptype p \<noteq> ''text'') \<Longrightarrow> find (\<lambda>p. ptype p = ''text'') ps = None"
  by (induction ps) auto

lemma find_text_first:
  "(\<forall>p \<in> set pre. ptype p \<noteq> ''text'') \<Longrightarrow>
   find (\<lambda>p. ptype p = ''text'') (pre @ UIPart ''text'' t # post) = Some (UIPart ''text'' t)"
  by (induction pre) auto

text \<open>
  C2, amended. The input of the trace is the text of the first part of type \<open>text\<close> of the
  last message of the sequence, whatever the role of that message; it is \<open>Chat request\<close>
  when the sequence is empty, when the last message has no parts or no part of type
  \<open>text\<close>, and when that text is absent or empty. Once the session is resolved, this is
  the input of the \<open>startTrace\<close> call, the second logger call of the request.
\<close>

theorem trace_input_last_message:
  "trace_input [] = ''Chat request''
   \<and> trace_input (ms @ [UIMessage r None]) = ''Chat request''
   \<and> ((\<forall>p \<in> set ps. ptype p \<noteq> ''text'') \<longrightarrow>
        trace_input (ms @ [UIMessage r (Some ps)]) = ''Chat request'')
   \<and> ((\<forall>p \<in> set pre. ptype p \<noteq> ''text'') \<longrightarrow>
        trace_input (ms @ [UIMessage r (Some (pre @ UIPart ''text'' t # post))]) =
          (case t of None \<Rightarrow> ''Chat request''
                   | Some x \<Rightarrow> if x = [] then ''Chat request'' else x))
   \<and> (replies env (ncalls s) = Returns v \<longrightarrow>
        events (snd (POST env (Body msgs chatId) s)) ! Suc (length (events s)) =
          Call (StartTrace (trace_input msgs) ''Chat Exchange'') (replies env (Suc (ncalls s))))"
proof -
  have "replies env (ncalls s) = Returns v \<Longrightarrow>
        events (snd (POST env (Body msgs chatId) s)) ! Suc (length (events s)) =
          Call (StartTrace (trace_input msgs) ''Chat Exchange'') (replies env (Suc (ncalls s)))"
    by (cases "replies env (Suc (ncalls s))"; cases "replies env (Suc (Suc (ncalls s)))";
        cases "replies env (Suc (Suc (Suc (ncalls s))))"; cases "streamText_throws env")
       (simp_all add: POST_eq Let_def nth_append numeral_eq_Suc)
  then show ?thesis
    by (simp add: trace_input_def last_message_def js_or_def find_text_none find_text_first)
qed

theorem trace_input_last_message_witness:
  "trace_input ([] @ [UIMessage ''user'' (Some ([UIPart ''file'' None] @
       UIPart ''text'' (Some ''first'') # [UIPart ''text'' (Some ''second'')]))]) = ''first''
   \<and> trace_input ([] @ [UIMessage ''user'' (Some [UIPart ''file'' None])]) = ''Chat request''
   \<and> events (snd (POST steady_env (Body answered_chat None) fresh_state)) ! Suc (length (events fresh_state)) =
       Call (StartTrace (trace_input answered_chat) ''Chat Exchange'')
         (replies steady_env (Suc (ncalls fresh_state)))"
  using trace_input_last_message [where ms = "[]" and r = "''user''"
          and ps = "[UIPart ''file'' None]" and pre = "[UIPart ''file'' None]"
          and t = "Some ''first''" and post = "[UIPart ''text'' (Some ''second'')]"
          and env = steady_env and s = fresh_state and v = "''session-1''"
          and msgs = answered_chat and chatId = None]
  by (simp add: steady_env_def fresh_state_def)

text \<open>
  Where the claim and the handler agree: the conversation ends with a user message that
  has exactly one part of type \<open>text\<close>, with a text that is not empty.
\<close>

lemma trace_input_agrees:
  assumes "msgs = ms @ [UIMessage ''user'' (Some ps)]"
      and "filter (\<lambda>p. ptype p = ''text'') ps = [UIPart ''text'' (Some t)]" and "t \<noteq> []"
  shows "trace_input msgs = t \<and> claimed_trace_input msgs = t"
proof -
  have f: "find (\<lambda>p. ptype p = ''text'') ps = Some (UIPart ''text'' (Some t))"
    using assms(2) by (induction ps) (auto split: if_splits)
  have z: "\<And>qs. filter (\<lambda>p. ptype p = ''text'') qs = [] \<Longrightarrow> part_texts qs = []"
  proof -
    fix qs show "filter (\<lambda>p. ptype p = ''text'') qs = [] \<Longrightarrow> part_texts qs = []"
      by (induction qs) (auto split: if_splits)
  qed
  have m: "part_texts ps = [t]"
    using assms(2) by (induction ps) (auto simp: z split: if_splits)
  show ?thesis
    using f m assms(1,3)
    by (simp add: trace_input_def last_message_def js_or_def claimed_trace_input_def user_texts_def
          message_texts_def)
qed

subsection \<open>C3: one session for one conversation identifier\<close>

text \<open>
  C3. Two requests in a row carry the same conversation identifier, which is not empty
  and which the map does not hold yet when the first arrives; the logger answers the
  first request's \<open>startSession\<close> with the session identifier \<open>sid\<close>. Then the first
  request creates the session \<open>sid\<close> and records it, the second finds it in the map and
  continues it with \<open>setSessionId sid\<close>, and \<open>startSession\<close> is called exactly once in the
  two requests. The map holds \<open>sid\<close>, and only it, for the identifier after both.
\<close>

theorem session_reused:
  assumes "chatId \<noteq> []" and "chatSessionMap s0 chatId = None"
      and "replies env (ncalls s0) = Returns sid"
      and "POST env (Body msgs1 (Some chatId)) s0 = (r1, s1)"
      and "POST env (Body msgs2 (Some chatId)) s1 = (r2, s2)"
  shows "hd (events_since s0 s1) = Call (StartSession (''Chat Session - '' @ chatId)) (Returns sid)
       \<and> hd (events_since s1 s2) = Call (SetSessionId sid) (replies env (ncalls s1))
       \<and> filter is_start_session (invoked (events_since s0 s2)) =
           [StartSession (''Chat Session - '' @ chatId)]
       \<and> chatSessionMap s1 chatId = Some sid \<and> chatSessionMap s2 chatId = Some sid"
proof -
  have m1: "chatSessionMap s1 chatId = Some sid"
    using assms(1-4)
    by (auto simp: POST_eq Let_def truthy_def split: reply.splits option.splits)
  obtain es1 where es1: "events s1 = events s0 @ es1"
    using POST_appends[OF assms(4)] by blast
  obtain es2 where es2: "events s2 = events s1 @ es2"
    using POST_appends[OF assms(5)] by blast
  have h1: "hd es1 = Call (StartSession (''Chat Session - '' @ chatId)) (Returns sid)
            \<and> filter is_start_session (invoked es1) = [StartSession (''Chat Session - '' @ chatId)]"
    using assms(1-4) es1
    by (auto simp: POST_eq Let_def truthy_def session_name_def split: reply.splits option.splits)
  have h2: "hd es2 = Call (SetSessionId sid) (replies env (ncalls s1))
            \<and> filter is_start_session (invoked es2) = [] \<and> chatSessionMap s2 chatId = Some sid"
    using assms(1,5) m1 es2
    by (auto simp: POST_eq Let_def truthy_def split: reply.splits option.splits)
  have "events_since s0 s1 = es1" "events_since s1 s2 = es2" "events_since s0 s2 = es1 @ es2"
    using es1 es2 by (simp_all add: events_since_def)
  then show ?thesis using h1 h2 m1 by (simp add: invoked_append)
qed

theorem session_reused_witness:
  "filter is_start_session
     (invoked (events_since fresh_state
        (snd (POST steady_env (Body answered_chat (Some ''chat-abc123''))
           (snd (POST steady_env (Body boston_chat (Some ''chat-abc123'')) fresh_state)))))) =
     [StartSession ''Chat Session - chat-abc123'']
   \<and> hd (events_since
          (snd (POST steady_env (Body boston_chat (Some ''chat-abc123'')) fresh_state))
          (snd (POST steady_env (Body answered_chat (Some ''chat-abc123''))
             (snd (POST steady_env (Body boston_chat (Some ''chat-abc123'')) fresh_state))))) =
       Call (SetSessionId ''session-1'') (Returns ''session-1'')"
  using session_reused [of "''chat-abc123''" fresh_state steady_env "''session-1''" boston_chat
          "fst (POST steady_env (Body boston_chat (Some ''chat-abc123'')) fresh_state)"
          "snd (POST steady_env (Body boston_chat (Some ''chat-abc123'')) fresh_state)"
          answered_chat
          "fst (POST steady_env (Body answered_chat (Some ''chat-abc123''))
             (snd (POST steady_env (Body boston_chat (Some ''chat-abc123'')) fresh_state)))"
          "snd (POST steady_env (Body answered_chat (Some ''chat-abc123''))
             (snd (POST steady_env (Body boston_chat (Some ''chat-abc123'')) fresh_state)))"]
  by (simp add: steady_env_def fresh_state_def)

text \<open>
  When the map already holds a session for the identifier, both requests continue that
  session and \<open>startSession\<close> is not called at all.
\<close>

lemma session_continued:
  assumes "chatId \<noteq> []" and "chatSessionMap s0 chatId = Some sid"
      and "POST env (Body msgs1 (Some chatId)) s0 = (r1, s1)"
      and "POST env (Body msgs2 (Some chatId)) s1 = (r2, s2)"
  shows "hd (events_since s0 s1) = Call (SetSessionId sid) (replies env (ncalls s0))
       \<and> hd (events_since s1 s2) = Call (SetSessionId sid) (replies env (ncalls s1))
       \<and> filter is_start_session (invoked (events_since s0 s2)) = []
       \<and> chatSessionMap s2 chatId = Some sid"
proof -
  obtain es1 where es1: "events s1 = events s0 @ es1"
    using POST_appends[OF assms(3)] by blast
  obtain es2 where es2: "events s2 = events s1 @ es2"
    using POST_appends[OF assms(4)] by blast
  have h1: "hd es1 = Call (SetSessionId sid) (replies env (ncalls s0))
            \<and> filter is_start_session (invoked es1) = [] \<and> chatSessionMap s1 chatId = Some sid"
    using assms(1-3) es1
    by (auto simp: POST_eq Let_def truthy_def split: reply.splits option.splits)
  have h2: "hd es2 = Call (SetSessionId sid) (replies env (ncalls s1))
            \<and> filter is_start_session (invoked es2) = [] \<and> chatSessionMap s2 chatId = Some sid"
    using assms(1,4) h1 es2
    by (auto simp: POST_eq Let_def truthy_def split: reply.splits option.splits)
  have "events_since s0 s1 = es1" "events_since s1 s2 = es2" "events_since s0 s2 = es1 @ es2"
    using es1 es2 by (simp_all add: events_since_def)
  then show ?thesis using h1 h2 by (simp add: invoked_append)
qed

text \<open>A \<open>startSession\<close> that throws records nothing in the map.\<close>

lemma failed_session_not_recorded:
  assumes "replies env (ncalls s0) = Throws e" and "POST env (Body msgs chatId) s0 = (r, s1)"
  shows "r = Inl e \<and> chatSessionMap s1 = chatSessionMap s0"
  using assms by (auto simp: POST_eq Let_def)

subsection \<open>C9: requests without a conversation identifier\<close>

text \<open>
  C9. Two requests in a row whose conversation identifier is absent or empty: each calls
  \<open>startSession\<close> once, with the name \<open>Chat Session\<close>, as its first logger call, and takes
  the reply to its own call (the two calls are different calls of the logger); neither
  calls \<open>setSessionId\<close>, and the map is after both what it was before.
\<close>

theorem independent_sessions:
  assumes "chatId1 = None \<or> chatId1 = Some []" and "chatId2 = None \<or> chatId2 = Some []"
      and "POST env (Body msgs1 chatId1) s0 = (r1, s1)"
      and "POST env (Body msgs2 chatId2) s1 = (r2, s2)"
  shows "hd (events_since s0 s1) = Call (StartSession ''Chat Session'') (replies env (ncalls s0))
       \<and> hd (events_since s1 s2) = Call (StartSession ''Chat Session'') (replies env (ncalls s1))
       \<and> ncalls s0 < ncalls s1
       \<and> filter is_start_session (invoked (events_since s0 s1)) = [StartSession ''Chat Session'']
       \<and> filter is_start_session (invoked (events_since s1 s2)) = [StartSession ''Chat Session'']
       \<and> filter is_set_session (invoked (events_since s0 s2)) = []
       \<and> chatSessionMap s1 = chatSessionMap s0 \<and> chatSessionMap s2 = chatSessionMap s0"
proof -
  obtain es1 where es1: "events s1 = events s0 @ es1"
    using POST_appends[OF assms(3)] by blast
  obtain es2 where es2: "events s2 = events s1 @ es2"
    using POST_appends[OF assms(4)] by blast
  have h1: "hd es1 = Call (StartSession ''Chat Session'') (replies env (ncalls s0))
            \<and> filter is_start_session (invoked es1) = [StartSession ''Chat Session'']
            \<and> filter is_set_session (invoked es1) = []
            \<and> chatSessionMap s1 = chatSessionMap s0 \<and> ncalls s0 < ncalls s1"
    using assms(1,3) es1
    by (auto simp: POST_eq Let_def truthy_def session_name_def split: reply.splits option.splits)
  have h2: "hd es2 = Call (StartSession ''Chat Session'') (replies env (ncalls s1))
            \<and> filter is_start_session (invoked es2) = [StartSession ''Chat Session'']
            \<and> filter is_set_session (invoked es2) = []
            \<and> chatSessionMap s2 = chatSessionMap s1"
    using assms(2,4) es2
    by (auto simp: POST_eq Let_def truthy_def session_name_def split: reply.splits option.splits)
  have "events_since s0 s1 = es1" "events_since s1 s2 = es2" "events_since s0 s2 = es1 @ es2"
    using es1 es2 by (simp_all add: events_since_def)
  then show ?thesis using h1 h2 by (simp add: invoked_append)
qed

theorem independent_sessions_witness:
  "filter is_start_session
     (invoked (events_since fresh_state
        (snd (POST steady_env (Body boston_chat None) fresh_state)))) =
     [StartSession ''Chat Session'']
   \<and> filter is_start_session
     (invoked (events_since (snd (POST steady_env (Body boston_chat None) fresh_state))
        (snd (POST steady_env (Body answered_chat (Some []))
           (snd (POST steady_env (Body boston_chat None) fresh_state)))))) =
     [StartSession ''Chat Session'']
   \<and> chatSessionMap (snd (POST steady_env (Body answered_chat (Some []))
        (snd (POST steady_env (Body boston_chat None) fresh_state)))) = Map.empty"
  using independent_sessions [of None "Some []" steady_env boston_chat fresh_state
          "fst (POST steady_env (Body boston_chat None) fresh_state)"
          "snd (POST steady_env (Body boston_chat None) fresh_state)"
          answered_chat
          "fst (POST steady_env (Body answered_chat (Some []))
             (snd (POST steady_env (Body boston_chat None) fresh_state)))"
          "snd (POST steady_env (Body answered_chat (Some []))
             (snd (POST steady_env (Body boston_chat None) fresh_state)))"]
  by (simp add: fresh_state_def)

subsection \<open>C4: one tool span for one tool invocation\<close>

text \<open>
  C4 says that every tool invocation that executes emits exactly one tool span and
  raises again the error it caught. Nothing in the work of either tool throws; the only
  call of a tool that can is the logger's \<open>addToolSpan\<close>. Here the handler has returned
  the stream and the logger throws at the tool span and again at the error span of the
  \<open>catch\<close>: the invocation has called \<open>addToolSpan\<close> twice, no tool span is emitted, and
  the exception that leaves the tool is the second one, not the one the \<open>catch\<close> caught.
\<close>

theorem tool_span_lost_and_error_replaced:
  "fst (POST rejecting_env (Body boston_chat None) fresh_state) =
     Inr \<lparr>messages = boston_chat, agentStartTime = 1000\<rparr>
   \<and> fst (execute rejecting_env (Weather ''Boston'' (JSNumber ''61''))
          (snd (POST rejecting_env (Body boston_chat None) fresh_state))) =
       Inl (ErrorObj ''error span rejected'')
   \<and> emitted (events_since (snd (POST rejecting_env (Body boston_chat None) fresh_state))
        (snd (execute rejecting_env (Weather ''Boston'' (JSNumber ''61''))
           (snd (POST rejecting_env (Body boston_chat None) fresh_state))))) = []
   \<and> map span_output
       (threw (events_since (snd (POST rejecting_env (Body boston_chat None) fresh_state))
          (snd (execute rejecting_env (Weather ''Boston'' (JSNumber ''61''))
             (snd (POST rejecting_env (Body boston_chat None) fresh_state)))))) =
       [Some (stringify_object [(''location'', JString ''Boston''),
                                (''temperature'', JNumber (JSNumber ''61''))]),
        Some (stringify_object [(''error'', JString ''span rejected'')])]"
proof -
  define s1 where "s1 = snd (POST rejecting_env (Body boston_chat None) fresh_state)"
  have p: "fst (POST rejecting_env (Body boston_chat None) fresh_state) =
             Inr \<lparr>messages = boston_chat, agentStartTime = 1000\<rparr>"
    by (simp add: POST_eq Let_def rejecting_env_def fresh_state_def)
  have n: "ncalls s1 = 4"
    unfolding s1_def
    by (simp add: POST_eq Let_def fresh_state_def) (simp add: rejecting_env_def)
  have r4: "replies rejecting_env (ncalls s1) = Throws (ErrorObj ''span rejected'')"
    and r5: "replies rejecting_env (Suc (ncalls s1)) = Throws (ErrorObj ''error span rejected'')"
    by (simp_all add: n rejecting_env_def)
  have "fst (execute rejecting_env (Weather ''Boston'' (JSNumber ''61'')) s1) =
          Inl (ErrorObj ''error span rejected'')
      \<and> emitted (events_since s1
           (snd (execute rejecting_env (Weather ''Boston'' (JSNumber ''61'')) s1))) = []
      \<and> map span_output
          (threw (events_since s1
             (snd (execute rejecting_env (Weather ''Boston'' (JSNumber ''61'')) s1)))) =
          [Some (stringify_object [(''location'', JString ''Boston''),
                                   (''temperature'', JNumber (JSNumber ''61''))]),
           Some (stringify_object [(''error'', JString ''span rejected'')])]"
    by (simp add: weatherTool_def now_def logger_call_eq and_then_def Let_def r4 r5
          events_since_def error_message_def)
  then show ?thesis
    using p unfolding s1_def by simp
qed

text \<open>
  C4, amended. The handler has returned the stream and the provider, after any number
  of tool invocations, runs a tool once more. Provided the logger takes the tool span
  or, having thrown at it, takes the error span of the \<open>catch\<close>: exactly one tool span is
  emitted by the invocation (\<open>addToolSpan\<close> is called once when the invocation returns
  and twice when it raises, the first of the two calls having thrown); the tags of the
  emitted span hold \<open>error\<close> if and only if the invocation raised; when it raised, the
  span's output is the serialised object holding the message of the raised error, and
  the raised error is the one that was caught, thrown again. Apart from tool spans, the
  calls of the request up to then are the session, the trace, the workflow span and the
  agent span, in this order: the agent span is the span that is open when the tool span
  is added.
\<close>

theorem tool_span_once:
  assumes "POST env req s0 = (Inr st, s1)"
      and "s = run_stream env st (map Exec tcs) s1"
      and "execute env tc s = (r, s')"
      and "(\<exists>v. replies env (ncalls s) = Returns v) \<or> (\<exists>v. replies env (Suc (ncalls s)) = Returns v)"
  shows "\<exists>span. filter is_tool_span (emitted (events_since s s')) = [span]
           \<and> length (filter is_tool_span (invoked (events_since s s'))) = (if isl r then 2 else 1)
           \<and> (''error'' \<in> set (span_tags span)) = isl r
           \<and> (\<forall>err. r = Inl err \<longrightarrow>
                 span_output span = Some (stringify_object [(''error'', JString (error_message err))])
                 \<and> replies env (ncalls s) = Throws err)
           \<and> (\<exists>c0 c1 c2 i n t g.
                 filter (\<lambda>c. \<not> is_tool_span c) (invoked (events_since s0 s')) =
                   [c0, c1, c2, AddAgentSpan i n t g])"
proof -
  obtain i o1 n1 g1 n2 g2 res where g: "''error'' \<notin> set g1" "''error'' \<in> set g2" and
    ex: "execute env tc s =
       (let t0 = clock env (nreads s);
            c1 = AddToolSpan i o1 n1 (durationNs (clock env (Suc (nreads s))) t0) t0 g1
        in case replies env (ncalls s) of
             Returns v \<Rightarrow>
               (Inr res, s\<lparr>events := events s @ [Call c1 (Returns v)],
                           ncalls := Suc (ncalls s), nreads := Suc (Suc (nreads s))\<rparr>)
           | Throws e \<Rightarrow>
               (case replies env (Suc (ncalls s)) of Returns v \<Rightarrow> Inl e | Throws e2 \<Rightarrow> Inl e2,
                s\<lparr>events := events s @
                     [Call c1 (Throws e),
                      Call (AddToolSpan i (stringify_object [(''error'', JString (error_message e))])
                              n2 (durationNs (clock env (Suc (Suc (nreads s)))) t0) t0 g2)
                        (replies env (Suc (ncalls s)))],
                  ncalls := Suc (Suc (ncalls s)), nreads := Suc (Suc (Suc (nreads s)))\<rparr>))"
    using execute_eq[of env tc s] by blast
  obtain es1 where es1: "events s1 = events s0 @ es1"
      "\<exists>c0 c1 c2 i n t g. invoked es1 = [c0, c1, c2, AddAgentSpan i n t g]
          \<and> \<not> is_tool_span c0 \<and> \<not> is_tool_span c1 \<and> \<not> is_tool_span c2"
    using POST_returned[OF assms(1)] by auto
  obtain es2 where es2: "events s = events s1 @ es2" "list_all is_tool_span (invoked es2)"
    using run_tools_appends[of env st tcs s1] unfolding assms(2) by blast
  obtain es3 where es3: "events s' = events s @ es3" "list_all is_tool_span (invoked es3)"
    using execute_appends[of env tc s] assms(3) by auto
  have nt: "\<And>cs. list_all is_tool_span cs \<Longrightarrow> filter (\<lambda>c. \<not> is_tool_span c) cs = []"
    by (simp add: list_all_iff)
  have "events_since s0 s' = es1 @ es2 @ es3"
    using es1(1) es2(1) es3(1) by (simp add: events_since_def)
  then have parent: "\<exists>c0 c1 c2 i n t g.
                 filter (\<lambda>c. \<not> is_tool_span c) (invoked (events_since s0 s')) =
                   [c0, c1, c2, AddAgentSpan i n t g]"
    using es1(2) nt[OF es2(2)] nt[OF es3(2)] by (auto simp: invoked_append)
  show ?thesis
  proof (cases "replies env (ncalls s)")
    case (Returns v)
    then show ?thesis
      using assms(3) ex g parent by (auto simp: Let_def events_since_def)
  next
    case (Throws e)
    then obtain v where "replies env (Suc (ncalls s)) = Returns v"
      using assms(4) by auto
    then show ?thesis
      using assms(3) ex g parent Throws by (auto simp: Let_def events_since_def)
  qed
qed

theorem tool_span_once_witness:
  "fst (execute flaky_env (Weather ''Boston'' (JSNumber ''61''))
          (snd (POST flaky_env (Body boston_chat None) fresh_state))) =
     Inl (ErrorObj ''span rejected'')
   \<and> (\<exists>span. filter is_tool_span
                 (emitted (events_since (snd (POST flaky_env (Body boston_chat None) fresh_state))
                    (snd (execute flaky_env (Weather ''Boston'' (JSNumber ''61''))
                       (snd (POST flaky_env (Body boston_chat None) fresh_state)))))) = [span]
          \<and> ''error'' \<in> set (span_tags span)
          \<and> span_output span = Some (stringify_object [(''error'', JString ''span rejected'')]))
   \<and> (\<exists>span. filter is_tool_span
                 (emitted (events_since (snd (POST steady_env (Body boston_chat None) fresh_state))
                    (snd (execute steady_env (ConvertFahrenheitToCelsius (JSNumber ''70'') (JSNumber ''21''))
                       (snd (POST steady_env (Body boston_chat None) fresh_state)))))) = [span]
          \<and> ''error'' \<notin> set (span_tags span))"
proof -
  define s1 where "s1 = snd (POST flaky_env (Body boston_chat None) fresh_state)"
  have p: "POST flaky_env (Body boston_chat None) fresh_state =
             (Inr \<lparr>messages = boston_chat, agentStartTime = 1000\<rparr>, s1)"
    unfolding s1_def
    by (simp add: POST_eq Let_def flaky_env_def fresh_state_def prod_eq_iff)
  have n: "ncalls s1 = 4"
    unfolding s1_def
    by (simp add: POST_eq Let_def fresh_state_def) (simp add: flaky_env_def)
  have r4: "replies flaky_env (ncalls s1) = Throws (ErrorObj ''span rejected'')"
    and r5: "replies flaky_env (Suc (ncalls s1)) = Returns ''session-1''"
    by (simp_all add: n flaky_env_def)
  have r: "fst (execute flaky_env (Weather ''Boston'' (JSNumber ''61'')) s1) = Inl (ErrorObj ''span rejected'')"
    by (simp add: weatherTool_def now_def logger_call_eq and_then_def Let_def r4 r5)
  have h: "(\<exists>v. replies flaky_env (ncalls s1) = Returns v)
         \<or> (\<exists>v. replies flaky_env (Suc (ncalls s1)) = Returns v)"
    by (simp add: r5)
  have e: "execute flaky_env (Weather ''Boston'' (JSNumber ''61'')) s1 =
             (Inl (ErrorObj ''span rejected''),
              snd (execute flaky_env (Weather ''Boston'' (JSNumber ''61'')) s1))"
    using r by (simp add: prod_eq_iff)
  have s: "s1 = run_stream flaky_env \<lparr>messages = boston_chat, agentStartTime = 1000\<rparr>
                  (map Exec []) s1"
    by simp
  define u1 where "u1 = snd (POST steady_env (Body boston_chat None) fresh_state)"
  have p': "POST steady_env (Body boston_chat None) fresh_state =
             (Inr \<lparr>messages = boston_chat, agentStartTime = 1000\<rparr>, u1)"
    unfolding u1_def
    by (simp add: POST_eq Let_def steady_env_def fresh_state_def prod_eq_iff)
  have h': "(\<exists>v. replies steady_env (ncalls u1) = Returns v)
         \<or> (\<exists>v. replies steady_env (Suc (ncalls u1)) = Returns v)"
    by (simp add: steady_env_def)
  have r': "fst (execute steady_env (ConvertFahrenheitToCelsius (JSNumber ''70'') (JSNumber ''21'')) u1) =
              Inr [(''celsius'', JNumber (JSNumber ''21''))]"
    by (simp add: convertTool_def now_def logger_call_eq and_then_def Let_def steady_env_def)
  have e': "execute steady_env (ConvertFahrenheitToCelsius (JSNumber ''70'') (JSNumber ''21'')) u1 =
             (Inr [(''celsius'', JNumber (JSNumber ''21''))],
              snd (execute steady_env (ConvertFahrenheitToCelsius (JSNumber ''70'') (JSNumber ''21'')) u1))"
    using r' by (simp add: prod_eq_iff)
  have s': "u1 = run_stream steady_env \<lparr>messages = boston_chat, agentStartTime = 1000\<rparr>
                  (map Exec []) u1"
    by simp
  show ?thesis
    using r tool_span_once [OF p s e h] tool_span_once [OF p' s' e' h']
    unfolding s1_def [symmetric] u1_def [symmetric]
    by (auto simp: error_message_def)
qed

text \<open>
  When the logger throws at both calls, the invocation emits no tool span and raises
  the second exception.
\<close>

lemma tool_span_lost_when_logger_fails_twice:
  assumes "replies env (ncalls s) = Throws e1" and "replies env (Suc (ncalls s)) = Throws e2"
  shows "fst (execute env tc s) = Inl e2
       \<and> emitted (events_since s (snd (execute env tc s))) = []"
proof -
  obtain i o1 n1 g1 n2 g2 res where
    exq: "execute env tc s =
       (let t0 = clock env (nreads s);
            c1 = AddToolSpan i o1 n1 (durationNs (clock env (Suc (nreads s))) t0) t0 g1
        in case replies env (ncalls s) of
             Returns v \<Rightarrow>
               (Inr res, s\<lparr>events := events s @ [Call c1 (Returns v)],
                           ncalls := Suc (ncalls s), nreads := Suc (Suc (nreads s))\<rparr>)
           | Throws e \<Rightarrow>
               (case replies env (Suc (ncalls s)) of Returns v \<Rightarrow> Inl e | Throws e2 \<Rightarrow> Inl e2,
                s\<lparr>events := events s @
                     [Call c1 (Throws e),
                      Call (AddToolSpan i (stringify_object [(''error'', JString (error_message e))])
                              n2 (durationNs (clock env (Suc (Suc (nreads s)))) t0) t0 g2)
                        (replies env (Suc (ncalls s)))],
                  ncalls := Suc (Suc (ncalls s)), nreads := Suc (Suc (Suc (nreads s)))\<rparr>))"
    using execute_eq[of env tc s] by blast
  show ?thesis
    using assms by (simp add: exq Let_def events_since_def)
qed

subsection \<open>C5: a stream that fails\<close>

text \<open>
  C5 says that a request on which the provider fails in the middle of the stream is
  concluded with an output that holds the error's message, and has no LLM span. The
  handler gives the provider two callbacks and nothing keeps \<open>onFinish\<close> from running
  after \<open>onError\<close>: here the provider reports the error and then finishes with the text it
  had. The request has an LLM span, and it is concluded a second time, with an output
  that does not hold the message.
\<close>

theorem llm_span_after_stream_error:
  "map span_output (filter is_conclude
     (invoked (events_since fresh_state
        (snd (run_request steady_env (Body boston_chat None)
           [StreamError (ErrorObj ''rate limited''), Finish ''It is'' None] fresh_state))))) =
     [Some ''Error: rate limited'', Some ''It is'']
   \<and> \<not> sublist ''rate limited'' ''It is''
   \<and> length (filter is_llm_span
     (emitted (events_since fresh_state
        (snd (run_request steady_env (Body boston_chat None)
           [StreamError (ErrorObj ''rate limited''), Finish ''It is'' None] fresh_state))))) = 1"
proof -
  have "\<not> sublist ''rate limited'' ''It is''"
    by (auto dest: sublist_length_le)
  then show ?thesis
    by (simp add: run_request_def POST_eq onError_eq onFinish_eq Let_def steady_env_def
          fresh_state_def events_since_def error_message_def js_or_def)
qed

text \<open>
  C5, amended. Every call of \<open>onError\<close> with an error that carries the message \<open>msg\<close>
  concludes, as its first logger call, with the output \<open>Error: \<close> followed by \<open>msg\<close>, of
  which \<open>msg\<close> is a substring, and adds no LLM span. In a request whose handler returned
  the stream and whose provider never calls \<open>onFinish\<close>, whatever else it calls, the
  \<open>conclude\<close> calls are those of the \<open>onError\<close> calls, one for each in order, and there is no
  \<open>addLlmSpan\<close> call.
\<close>

theorem onError_concludes_with_message:
  "hd (events_since s (snd (onError env (ErrorObj msg) s))) =
     Call (Conclude (''Error: '' @ msg)) (replies env (ncalls s))
   \<and> filter is_conclude (invoked (events_since s (snd (onError env (ErrorObj msg) s)))) =
       [Conclude (''Error: '' @ msg)]
   \<and> sublist msg (''Error: '' @ msg)
   \<and> filter is_llm_span (invoked (events_since s (snd (onError env (ErrorObj msg) s)))) = []
   \<and> (run_request env req evs s0 = (Inr st, s') \<and> filter is_finish evs = [] \<longrightarrow>
        filter is_conclude (invoked (events_since s0 s')) =
          map (\<lambda>e. Conclude (''Error: '' @ error_message e)) (stream_errors evs)
        \<and> filter is_llm_span (invoked (events_since s0 s')) = [])"
proof -
  have a: "hd (events_since s (snd (onError env (ErrorObj msg) s))) =
     Call (Conclude (''Error: '' @ msg)) (replies env (ncalls s))
   \<and> filter is_conclude (invoked (events_since s (snd (onError env (ErrorObj msg) s)))) =
       [Conclude (''Error: '' @ msg)]
   \<and> filter is_llm_span (invoked (events_since s (snd (onError env (ErrorObj msg) s)))) = []"
    by (cases "replies env (ncalls s)")
       (simp_all add: onError_eq Let_def events_since_def error_message_def)
  have b: "sublist msg (''Error: '' @ msg)"
    by (rule suffix_imp_sublist) (rule suffixI, rule refl)
  have c: "run_request env req evs s0 = (Inr st, s') \<and> filter is_finish evs = [] \<longrightarrow>
        filter is_conclude (invoked (events_since s0 s')) =
          map (\<lambda>e. Conclude (''Error: '' @ error_message e)) (stream_errors evs)
        \<and> filter is_llm_span (invoked (events_since s0 s')) = []"
  proof
    assume h: "run_request env req evs s0 = (Inr st, s') \<and> filter is_finish evs = []"
    obtain s1 where s1: "POST env req s0 = (Inr st, s1)" and s': "s' = run_stream env st evs s1"
      using run_request_returned[of env req evs s0 st s'] h by blast
    obtain es1 where es1: "events s1 = events s0 @ es1" "filter is_conclude (invoked es1) = []"
        "filter is_llm_span (invoked es1) = []"
      using POST_returned_calls[OF s1] by blast
    obtain es2 where es2: "events s' = events s1 @ es2"
        "filter is_conclude (invoked es2) =
           map (\<lambda>e. Conclude (''Error: '' @ error_message e)) (stream_errors evs)"
        "filter is_llm_span (invoked es2) = []"
      using run_stream_no_finish[of evs env st s1] h unfolding s' by blast
    have "events_since s0 s' = es1 @ es2"
      using es1(1) es2(1) by (simp add: events_since_def)
    then show "filter is_conclude (invoked (events_since s0 s')) =
          map (\<lambda>e. Conclude (''Error: '' @ error_message e)) (stream_errors evs)
        \<and> filter is_llm_span (invoked (events_since s0 s')) = []"
      using es1 es2 by (simp add: invoked_append)
  qed
  show ?thesis
    using a b c by (simp del: append.simps)
qed

theorem onError_concludes_with_message_witness:
  "filter is_conclude
     (invoked (events_since fresh_state
        (snd (run_request steady_env (Body boston_chat None)
           [Exec (Weather ''Boston'' (JSNumber ''61'')), StreamError (ErrorObj ''rate limited'')]
           fresh_state)))) = [Conclude ''Error: rate limited'']
   \<and> sublist ''rate limited'' ''Error: rate limited''
   \<and> filter is_llm_span
     (invoked (events_since fresh_state
        (snd (run_request steady_env (Body boston_chat None)
           [Exec (Weather ''Boston'' (JSNumber ''61'')), StreamError (ErrorObj ''rate limited'')]
           fresh_state)))) = []"
proof -
  have h: "run_request steady_env (Body boston_chat None)
             [Exec (Weather ''Boston'' (JSNumber ''61'')), StreamError (ErrorObj ''rate limited'')]
             fresh_state =
           (Inr \<lparr>messages = boston_chat, agentStartTime = 1000\<rparr>,
            snd (run_request steady_env (Body boston_chat None)
              [Exec (Weather ''Boston'' (JSNumber ''61'')), StreamError (ErrorObj ''rate limited'')]
              fresh_state))"
    by (simp add: run_request_def POST_eq Let_def steady_env_def fresh_state_def prod_eq_iff)
  show ?thesis
    using h onError_concludes_with_message [where msg = "''rate limited''" and env = steady_env
            and req = "Body boston_chat None" and s0 = fresh_state
            and evs = "[Exec (Weather ''Boston'' (JSNumber ''61'')),
                        StreamError (ErrorObj ''rate limited'')]"
            and st = "\<lparr>messages = boston_chat, agentStartTime = 1000\<rparr>"
            and s' = "snd (run_request steady_env (Body boston_chat None)
              [Exec (Weather ''Boston'' (JSNumber ''61'')), StreamError (ErrorObj ''rate limited'')]
              fresh_state)"]
    by (simp add: error_message_def)
qed

subsection \<open>C6: one flush, after conclude\<close>

text \<open>
  C6 says that every request that reaches the end of the stream, by completion or by
  failure, calls \<open>flush\<close> exactly once. The callbacks call the logger one method after the
  other with no \<open>finally\<close>, and nothing keeps the provider from calling both. Here a
  stream completes while \<open>addLlmSpan\<close> throws, and \<open>flush\<close> is not called; and a provider
  reports an error and then finishes, and \<open>flush\<close> is called twice.
\<close>

theorem flush_skipped_or_repeated:
  "fst (run_request flaky_env (Body boston_chat None) [Finish ''It is sunny.'' None] fresh_state) =
     Inr \<lparr>messages = boston_chat, agentStartTime = 1000\<rparr>
   \<and> filter (\<lambda>c. c = Flush)
       (invoked (events_since fresh_state
          (snd (run_request flaky_env (Body boston_chat None) [Finish ''It is sunny.'' None]
             fresh_state)))) = []
   \<and> filter (\<lambda>c. c = Flush)
       (invoked (events_since fresh_state
          (snd (run_request steady_env (Body boston_chat None)
             [StreamError (ErrorObj ''rate limited''), Finish ''It is'' None] fresh_state)))) =
       [Flush, Flush]"
  by (simp add: run_request_def POST_eq onError_eq onFinish_eq Let_def steady_env_def
        flaky_env_def fresh_state_def events_since_def)

text \<open>
  The shape of the log when the provider, after any tools, makes one final call and no
  \<open>addLlmSpan\<close> or \<open>conclude\<close> call threw.
\<close>

lemma flush_once_shape:
  assumes "run_request env req (map Exec tcs @ [final]) s0 = (Inr st, s')"
      and "final = Finish txt usg \<or> final = StreamError err"
      and "filter (\<lambda>c. is_llm_span c \<or> is_conclude c) (threw (events_since s0 s')) = []"
  shows "\<exists>pre out v rp.
           events_since s0 s' = pre @ [Call (Conclude out) (Returns v), Call Flush rp]
           \<and> Flush \<notin> set (invoked pre) \<and> filter is_conclude (invoked pre) = []"
proof -
  obtain s1 where s1: "POST env req s0 = (Inr st, s1)"
      and s': "s' = run_stream env st (map Exec tcs @ [final]) s1"
    using run_request_returned[OF assms(1)] by blast
  define s2 where "s2 = run_stream env st (map Exec tcs) s1"
  obtain es1 where es1: "events s1 = events s0 @ es1" "filter is_conclude (invoked es1) = []"
      "Flush \<notin> set (invoked es1)"
    using POST_returned_calls[OF s1] by blast
  obtain es2 where es2: "events s2 = events s1 @ es2" "list_all is_tool_span (invoked es2)"
    using run_tools_appends[of env st tcs s1] unfolding s2_def by blast
  have t: "filter is_conclude (invoked es2) = [] \<and> Flush \<notin> set (invoked es2)"
    using tool_spans_only[OF es2(2)] by simp
  have s'2: "s' = provider_step env st final s2"
    by (simp add: s' s2_def run_stream_append)
  have pre: "Flush \<notin> set (invoked (es1 @ es2)) \<and> filter is_conclude (invoked (es1 @ es2)) = []"
    using es1 t by (simp add: invoked_append)
  have since: "\<And>es3. events s' = events s2 @ es3 \<Longrightarrow> events_since s0 s' = (es1 @ es2) @ es3"
    using es1(1) es2(1) by (simp add: events_since_def)
  from assms(2) show ?thesis
  proof
    assume f: "final = Finish txt usg"
    show ?thesis
    proof (cases "replies env (ncalls s2)")
      case (Throws e1)
      then have "\<exists>c. is_llm_span c \<and> events s' = events s2 @ [Call c (Throws e1)]"
        unfolding s'2 f by (simp add: onFinish_eq Let_def)
      then obtain c where "is_llm_span c" "events s' = events s2 @ [Call c (Throws e1)]" by blast
      then have "events_since s0 s' = (es1 @ es2) @ [Call c (Throws e1)]" "is_llm_span c"
        using since by simp_all
      then show ?thesis using assms(3) by (simp add: threw_append)
    next
      case r1: (Returns v1)
      show ?thesis
      proof (cases "replies env (Suc (ncalls s2))")
        case (Throws e2)
        then have "\<exists>c c2. is_conclude c2 \<and> events s' = events s2 @ [Call c (Returns v1), Call c2 (Throws e2)]"
          unfolding s'2 f using r1 by (simp add: onFinish_eq Let_def)
        then obtain c c2 where "is_conclude c2"
            "events s' = events s2 @ [Call c (Returns v1), Call c2 (Throws e2)]" by blast
        then have "events_since s0 s' = (es1 @ es2) @ [Call c (Returns v1), Call c2 (Throws e2)]"
            "is_conclude c2"
          using since by simp_all
        then show ?thesis using assms(3) by (simp add: threw_append)
      next
        case r2: (Returns v2)
        have "\<exists>c out. is_llm_span c \<and> events s' = events s2 @
                [Call c (Returns v1), Call (Conclude out) (Returns v2),
                 Call Flush (replies env (Suc (Suc (ncalls s2))))]"
          unfolding s'2 f using r1 r2 by (simp add: onFinish_eq Let_def)
        then obtain c out where c: "is_llm_span c" "events s' = events s2 @
                [Call c (Returns v1), Call (Conclude out) (Returns v2),
                 Call Flush (replies env (Suc (Suc (ncalls s2))))]" by blast
        have "events_since s0 s' = ((es1 @ es2) @ [Call c (Returns v1)]) @
                [Call (Conclude out) (Returns v2), Call Flush (replies env (Suc (Suc (ncalls s2))))]"
          using since[OF c(2)] by simp
        moreover have "Flush \<notin> set (invoked ((es1 @ es2) @ [Call c (Returns v1)]))
            \<and> filter is_conclude (invoked ((es1 @ es2) @ [Call c (Returns v1)])) = []"
          using pre c(1) by (auto simp: invoked_append elim: is_llm_span.elims)
        ultimately show ?thesis by blast
      qed
    qed
  next
    assume f: "final = StreamError err"
    show ?thesis
    proof (cases "replies env (ncalls s2)")
      case (Throws e1)
      then have "\<exists>c. is_conclude c \<and> events s' = events s2 @ [Call c (Throws e1)]"
        unfolding s'2 f by (simp add: onError_eq Let_def)
      then obtain c where "is_conclude c" "events s' = events s2 @ [Call c (Throws e1)]" by blast
      then have "events_since s0 s' = (es1 @ es2) @ [Call c (Throws e1)]" "is_conclude c"
        using since by simp_all
      then show ?thesis using assms(3) by (simp add: threw_append)
    next
      case r1: (Returns v1)
      have "\<exists>out. events s' = events s2 @
                [Call (Conclude out) (Returns v1), Call Flush (replies env (Suc (ncalls s2)))]"
        unfolding s'2 f using r1 by (simp add: onError_eq Let_def)
      then obtain out where c: "events s' = events s2 @
                [Call (Conclude out) (Returns v1), Call Flush (replies env (Suc (ncalls s2)))]"
        by blast
      have "events_since s0 s' = (es1 @ es2) @
                [Call (Conclude out) (Returns v1), Call Flush (replies env (Suc (ncalls s2)))]"
        using since[OF c] by simp
      then show ?thesis using pre by blast
    qed
  qed
qed

text \<open>
  C6, amended. In every request, whatever the provider calls, every \<open>flush\<close> call comes
  directly after a \<open>conclude\<close> call that returned. When the handler returned the stream,
  the provider after any number of tools calls one of \<open>onFinish\<close> and \<open>onError\<close>, once, and no
  \<open>addLlmSpan\<close> or \<open>conclude\<close> call of the request threw, the log of the request ends with
  such a \<open>conclude\<close> call followed by the \<open>flush\<close> call and holds no other \<open>flush\<close> and no
  other \<open>conclude\<close>: \<open>flush\<close> is called exactly once.
\<close>

theorem flush_once_after_conclude:
  assumes "run_request env req evs s0 = (r, s')"
  shows "(\<forall>pre rp post. events_since s0 s' = pre @ Call Flush rp # post \<longrightarrow>
            (\<exists>pre' out v. pre = pre' @ [Call (Conclude out) (Returns v)]))
       \<and> (r = Inr st \<and> evs = map Exec tcs @ [final]
            \<and> (final = Finish ftext usg \<or> final = StreamError err)
            \<and> filter (\<lambda>c. is_llm_span c \<or> is_conclude c) (threw (events_since s0 s')) = [] \<longrightarrow>
          (\<exists>pre out v rp.
             events_since s0 s' = pre @ [Call (Conclude out) (Returns v), Call Flush rp]
             \<and> Flush \<notin> set (invoked pre) \<and> filter is_conclude (invoked pre) = []))"
proof (intro conjI allI impI)
  fix pre rp post
  assume e: "events_since s0 s' = pre @ Call Flush rp # post"
  have fa: "flush_after False (events_since s0 s')"
    using request_flush_after[OF assms] .
  have "(pre = [] \<and> False) \<or> (pre \<noteq> [] \<and> returned_conclude (last pre))"
    using flush_after_split[OF fa e] by simp
  then show "\<exists>pre' out v. pre = pre' @ [Call (Conclude out) (Returns v)]"
    using returned_conclude_last by blast
next
  assume h: "r = Inr st \<and> evs = map Exec tcs @ [final]
            \<and> (final = Finish ftext usg \<or> final = StreamError err)
            \<and> filter (\<lambda>c. is_llm_span c \<or> is_conclude c) (threw (events_since s0 s')) = []"
  then have "run_request env req (map Exec tcs @ [final]) s0 = (Inr st, s')"
    using assms by simp
  then show "\<exists>pre out v rp.
             events_since s0 s' = pre @ [Call (Conclude out) (Returns v), Call Flush rp]
             \<and> Flush \<notin> set (invoked pre) \<and> filter is_conclude (invoked pre) = []"
    using h flush_once_shape[of env req tcs final s0 st s' ftext usg err] by blast
qed

theorem flush_once_after_conclude_witness:
  "(\<exists>pre out v rp.
      events_since fresh_state
        (snd (run_request steady_env (Body boston_chat None)
           (map Exec [ConvertFahrenheitToCelsius (JSNumber ''70'') (JSNumber ''21'')] @
              [StreamError (ErrorObj ''rate limited'')])
           fresh_state)) =
        pre @ [Call (Conclude out) (Returns v), Call Flush rp]
      \<and> Flush \<notin> set (invoked pre) \<and> filter is_conclude (invoked pre) = [])
   \<and> (\<exists>pre out v rp.
      events_since fresh_state
        (snd (run_request steady_env (Body boston_chat None)
           (map Exec [ConvertFahrenheitToCelsius (JSNumber ''70'') (JSNumber ''21'')] @
              [Finish ''It is 21 degrees.'' None])
           fresh_state)) =
        pre @ [Call (Conclude out) (Returns v), Call Flush rp]
      \<and> Flush \<notin> set (invoked pre) \<and> filter is_conclude (invoked pre) = [])"
proof -
  have h: "\<And>final. run_request steady_env (Body boston_chat None)
             (map Exec [ConvertFahrenheitToCelsius (JSNumber ''70'') (JSNumber ''21'')] @ [final])
             fresh_state =
           (Inr \<lparr>messages = boston_chat, agentStartTime = 1000\<rparr>,
            snd (run_request steady_env (Body boston_chat None)
              (map Exec [ConvertFahrenheitToCelsius (JSNumber ''70'') (JSNumber ''21'')] @ [final])
              fresh_state))"
    by (simp add: run_request_def POST_eq Let_def steady_env_def fresh_state_def prod_eq_iff)
  have t1: "filter (\<lambda>c. is_llm_span c \<or> is_conclude c)
             (threw (events_since fresh_state
                (snd (run_request steady_env (Body boston_chat None)
                   (map Exec [ConvertFahrenheitToCelsius (JSNumber ''70'') (JSNumber ''21'')] @
                      [StreamError (ErrorObj ''rate limited'')])
                   fresh_state)))) = []"
    by (simp add: run_request_def POST_eq convertTool_def now_def logger_call_eq and_then_def
          onError_eq Let_def steady_env_def fresh_state_def events_since_def)
  have t2: "filter (\<lambda>c. is_llm_span c \<or> is_conclude c)
             (threw (events_since fresh_state
                (snd (run_request steady_env (Body boston_chat None)
                   (map Exec [ConvertFahrenheitToCelsius (JSNumber ''70'') (JSNumber ''21'')] @
                      [Finish ''It is 21 degrees.'' None])
                   fresh_state)))) = []"
    by (simp add: run_request_def POST_eq convertTool_def now_def logger_call_eq and_then_def
          onFinish_eq Let_def steady_env_def fresh_state_def events_since_def)
  note a = flush_once_after_conclude [OF h, where st = "\<lparr>messages = boston_chat, agentStartTime = 1000\<rparr>"
      and tcs = "[ConvertFahrenheitToCelsius (JSNumber ''70'') (JSNumber ''21'')]"
      and final = "StreamError (ErrorObj ''rate limited'')" and err = "ErrorObj ''rate limited''"
      and ftext = "[]" and usg = None]
  note b = flush_once_after_conclude [OF h, where st = "\<lparr>messages = boston_chat, agentStartTime = 1000\<rparr>"
      and tcs = "[ConvertFahrenheitToCelsius (JSNumber ''70'') (JSNumber ''21'')]"
      and final = "Finish ''It is 21 degrees.'' None" and err = NonError
      and ftext = "''It is 21 degrees.''" and usg = None]
  from a t1 have 1: "\<exists>pre out v rp.
      events_since fresh_state
        (snd (run_request steady_env (Body boston_chat None)
           (map Exec [ConvertFahrenheitToCelsius (JSNumber ''70'') (JSNumber ''21'')] @
              [StreamError (ErrorObj ''rate limited'')])
           fresh_state)) =
        pre @ [Call (Conclude out) (Returns v), Call Flush rp]
      \<and> Flush \<notin> set (invoked pre) \<and> filter is_conclude (invoked pre) = []"
    by blast
  from b t2 have 2: "\<exists>pre out v rp.
      events_since fresh_state
        (snd (run_request steady_env (Body boston_chat None)
           (map Exec [ConvertFahrenheitToCelsius (JSNumber ''70'') (JSNumber ''21'')] @
              [Finish ''It is 21 degrees.'' None])
           fresh_state)) =
        pre @ [Call (Conclude out) (Returns v), Call Flush rp]
      \<and> Flush \<notin> set (invoked pre) \<and> filter is_conclude (invoked pre) = []"
    by blast
  show ?thesis using 1 2 by (rule conjI)
qed

subsection \<open>C7: the output of conclude on success\<close>

text \<open>
  C7 says that a stream that finishes with the final text \<open>t\<close> is concluded with \<open>t\<close>,
  for the empty text too. The handler concludes with
  \<open>text || 'Chat completed successfully'\<close>: an empty final text is replaced.
\<close>

theorem empty_text_concluded_with_placeholder:
  "filter is_conclude
     (invoked (events_since fresh_state
        (snd (run_request steady_env (Body boston_chat None) [Finish [] None] fresh_state)))) =
     [Conclude ''Chat completed successfully'']"
  by (simp add: run_request_def POST_eq onFinish_eq Let_def steady_env_def fresh_state_def
        events_since_def truthy_def)

text \<open>
  C7, amended. The handler has returned the stream; the provider runs any number of
  tools and then finishes with the final text \<open>t\<close>. Provided the \<open>addLlmSpan\<close> call did
  not throw, the request holds exactly one \<open>conclude\<close> call; its output is \<open>t\<close> when \<open>t\<close> is
  not empty and \<open>Chat completed successfully\<close> when it is.
\<close>

theorem finish_concluded:
  assumes "run_request env req (map Exec tcs @ [Finish txt usg]) s0 = (Inr st, s')"
      and "filter is_llm_span (threw (events_since s0 s')) = []"
  shows "filter is_conclude (invoked (events_since s0 s')) =
           [Conclude (if txt = [] then ''Chat completed successfully'' else txt)]"
proof -
  obtain s1 where s1: "POST env req s0 = (Inr st, s1)"
      and s': "s' = run_stream env st (map Exec tcs @ [Finish txt usg]) s1"
    using run_request_returned[OF assms(1)] by blast
  define s2 where "s2 = run_stream env st (map Exec tcs) s1"
  obtain es1 where es1: "events s1 = events s0 @ es1" "filter is_conclude (invoked es1) = []"
    using POST_returned_calls[OF s1] by blast
  obtain es2 where es2: "events s2 = events s1 @ es2" "list_all is_tool_span (invoked es2)"
    using run_tools_appends[of env st tcs s1] unfolding s2_def by blast
  have t: "filter is_conclude (invoked es2) = []"
    using tool_spans_only[OF es2(2)] by simp
  have s'2: "s' = snd (onFinish env st txt usg s2)"
    by (simp add: s' s2_def run_stream_append)
  have since: "\<And>es3. events s' = events s2 @ es3 \<Longrightarrow> events_since s0 s' = es1 @ es2 @ es3"
    using es1(1) es2(1) by (simp add: events_since_def)
  show ?thesis
  proof (cases "replies env (ncalls s2)")
    case (Throws e1)
    then have "\<exists>c. is_llm_span c \<and> events s' = events s2 @ [Call c (Throws e1)]"
      unfolding s'2 by (simp add: onFinish_eq Let_def)
    then obtain c where "is_llm_span c" "events s' = events s2 @ [Call c (Throws e1)]" by blast
    then have "events_since s0 s' = es1 @ es2 @ [Call c (Throws e1)]" "is_llm_span c"
      using since by simp_all
    then show ?thesis using assms(2) by (simp add: threw_append)
  next
    case (Returns v1)
    then have "\<exists>es3. events s' = events s2 @ es3 \<and> filter is_conclude (invoked es3) =
        [Conclude (if txt = [] then ''Chat completed successfully'' else txt)]"
      unfolding s'2
      by (cases "replies env (Suc (ncalls s2))") (simp_all add: onFinish_eq Let_def)
    then obtain es3 where "events s' = events s2 @ es3" "filter is_conclude (invoked es3) =
        [Conclude (if txt = [] then ''Chat completed successfully'' else txt)]" by blast
    then show ?thesis using since es1(2) t by (simp add: invoked_append)
  qed
qed

theorem finish_concluded_witness:
  "filter is_conclude
     (invoked (events_since fresh_state
        (snd (run_request steady_env (Body boston_chat None)
           (map Exec [Weather ''Boston'' (JSNumber ''61'')] @ [Finish ''It is 61 degrees in Boston.'' None])
           fresh_state)))) = [Conclude ''It is 61 degrees in Boston.'']"
proof -
  have h: "run_request steady_env (Body boston_chat None)
             (map Exec [Weather ''Boston'' (JSNumber ''61'')] @ [Finish ''It is 61 degrees in Boston.'' None])
             fresh_state =
           (Inr \<lparr>messages = boston_chat, agentStartTime = 1000\<rparr>,
            snd (run_request steady_env (Body boston_chat None)
              (map Exec [Weather ''Boston'' (JSNumber ''61'')] @ [Finish ''It is 61 degrees in Boston.'' None])
              fresh_state))"
    by (simp add: run_request_def POST_eq Let_def steady_env_def fresh_state_def prod_eq_iff)
  have t: "filter is_llm_span
             (threw (events_since fresh_state
                (snd (run_request steady_env (Body boston_chat None)
                   (map Exec [Weather ''Boston'' (JSNumber ''61'')] @
                      [Finish ''It is 61 degrees in Boston.'' None])
                   fresh_state)))) = []"
    by (simp add: run_request_def POST_eq weatherTool_def now_def logger_call_eq and_then_def
          onFinish_eq Let_def steady_env_def fresh_state_def events_since_def)
  show ?thesis
    using finish_concluded [OF h t] by simp
qed

subsection \<open>C10: durations and clock readings\<close>

text \<open>
  C10 says that every recorded duration is a multiple of \<open>1000000\<close> that is not negative.
  The two readings it comes from are readings of \<open>Date.now()\<close>, the wall clock, which can
  be set back between them: here the clock loses 7 ms from one reading to the next and
  the tool span's duration is negative.
\<close>

theorem negative_duration_when_clock_steps_back:
  "map span_duration (filter is_tool_span
     (emitted (events_since fresh_state
        (snd (run_request backward_env (Body boston_chat None)
           [Exec (Weather ''Boston'' (JSNumber ''61''))] fresh_state))))) = [Some (- 7000000)]"
  by (simp add: run_request_def POST_eq weatherTool_def now_def logger_call_eq and_then_def
        Let_def backward_env_def fresh_state_def events_since_def durationNs_def to_double_def)

text \<open>
  C10, amended. In a request, whatever the provider does, the duration of every tool
  span and of the LLM span is the double product by \<open>1000000\<close> of the difference between
  two readings of the millisecond clock, the later minus the earlier: for a tool span
  the earlier is the reading at the tool's start, its \<open>createdAt\<close>, and the later the
  first or second reading after it; for the LLM span the earlier is the reading at the
  agent span's start, taken by the handler. When the difference is at most \<open>9007199254\<close>
  ms in magnitude (about 104 days) the product is exact: the duration is that many
  milliseconds times \<open>1000000\<close>, a multiple of \<open>1000000\<close>, and it is not negative exactly when
  the clock did not go back between the two readings.
\<close>

theorem durations_from_clock_readings:
  assumes "run_request env req evs s0 = (r, s')"
  shows "\<forall>c \<in> set (invoked (events_since s0 s')). \<forall>d. span_duration c = Some d \<longrightarrow>
           (\<exists>k j. nreads s0 \<le> k \<and> k < j \<and> j < nreads s'
              \<and> d = durationNs (clock env j) (clock env k)
              \<and> (is_tool_span c \<longrightarrow> span_createdAt c = Some (clock env k) \<and> j \<le> k + 2)
              \<and> (is_llm_span c \<longrightarrow> k = nreads s0)
              \<and> (\<bar>clock env j - clock env k\<bar> \<le> 9007199254 \<longrightarrow>
                   d = (clock env j - clock env k) * 1000000 \<and> 1000000 dvd d
                   \<and> (0 \<le> d) = (clock env k \<le> clock env j)))"
proof -
  have all: "list_all (duration_of_readings env (nreads s0) (nreads s0) (nreads s'))
               (invoked (events_since s0 s'))"
  proof (cases "fst (POST env req s0)")
    case (Inl e)
    then have "s' = snd (POST env req s0)"
      using assms by (simp add: run_request_def split: prod.splits)
    then obtain es where "events s' = events s0 @ es"
        "\<forall>c \<in> set (invoked es). span_duration c = None"
      using POST_no_durations[of env req s0 "fst (POST env req s0)" "snd (POST env req s0)"]
      by auto
    then show ?thesis
      by (simp add: events_since_def list_all_iff duration_of_readings_other)
  next
    case (Inr st)
    define s1 where "s1 = snd (POST env req s0)"
    have p: "POST env req s0 = (Inr st, s1)"
      using Inr by (simp add: s1_def prod_eq_iff)
    have s': "s' = run_stream env st evs s1"
      using assms p by (simp add: run_request_def)
    obtain es1 where es1: "events s1 = events s0 @ es1"
        "\<forall>c \<in> set (invoked es1). span_duration c = None"
      using POST_no_durations[OF p] by blast
    have a: "agentStartTime st = clock env (nreads s0)" "nreads s0 < nreads s1"
      using POST_returned[OF p] by auto
    obtain es2 where es2: "events s' = events s1 @ es2"
        "list_all (duration_of_readings env (nreads s0) (nreads s0) (nreads s')) (invoked es2)"
      using run_stream_durations[OF a, of evs] unfolding s' by blast
    have "events_since s0 s' = es1 @ es2"
      using es1(1) es2(1) by (simp add: events_since_def)
    then show ?thesis
      using es1(2) es2(2) by (auto simp: invoked_append list_all_iff duration_of_readings_other)
  qed
  show ?thesis
  proof (intro ballI allI impI)
    fix c d
    assume c: "c \<in> set (invoked (events_since s0 s'))" and d: "span_duration c = Some d"
    have "duration_of_readings env (nreads s0) (nreads s0) (nreads s') c"
      using all c by (simp add: list_all_iff)
    then obtain k j where kj: "nreads s0 \<le> k" "k < j" "j < nreads s'"
        "d = durationNs (clock env j) (clock env k)"
        "is_tool_span c \<longrightarrow> span_createdAt c = Some (clock env k) \<and> j \<le> k + 2"
        "is_llm_span c \<longrightarrow> k = nreads s0"
      using d by (auto simp: duration_of_readings_def)
    have "\<bar>clock env j - clock env k\<bar> \<le> 9007199254 \<longrightarrow>
            d = (clock env j - clock env k) * 1000000 \<and> 1000000 dvd d
            \<and> (0 \<le> d) = (clock env k \<le> clock env j)"
    proof
      assume b: "\<bar>clock env j - clock env k\<bar> \<le> 9007199254"
      have e: "d = (clock env j - clock env k) * 1000000"
        using durationNs_exact[OF b] kj(4) by simp
      have "(0 \<le> (clock env j - clock env k) * 1000000) = (clock env k \<le> clock env j)"
        by (simp add: zero_le_mult_iff)
      then show "d = (clock env j - clock env k) * 1000000 \<and> 1000000 dvd d
            \<and> (0 \<le> d) = (clock env k \<le> clock env j)"
        using e by simp
    qed
    then show "\<exists>k j. nreads s0 \<le> k \<and> k < j \<and> j < nreads s'
              \<and> d = durationNs (clock env j) (clock env k)
              \<and> (is_tool_span c \<longrightarrow> span_createdAt c = Some (clock env k) \<and> j \<le> k + 2)
              \<and> (is_llm_span c \<longrightarrow> k = nreads s0)
              \<and> (\<bar>clock env j - clock env k\<bar> \<le> 9007199254 \<longrightarrow>
                   d = (clock env j - clock env k) * 1000000 \<and> 1000000 dvd d
                   \<and> (0 \<le> d) = (clock env k \<le> clock env j))"
      using kj by (intro exI[of _ k] exI[of _ j]) simp
  qed
qed

theorem durations_from_clock_readings_witness:
  "list_all (\<lambda>c. case span_duration c of None \<Rightarrow> True | Some d \<Rightarrow> 1000000 dvd d \<and> 0 \<le> d)
     (invoked (events_since fresh_state
        (snd (run_request steady_env (Body boston_chat None)
           [Exec (Weather ''Boston'' (JSNumber ''61'')), Finish ''It is 61 degrees in Boston.'' None]
           fresh_state))))
   \<and> map span_duration (filter (\<lambda>c. is_tool_span c \<or> is_llm_span c)
     (invoked (events_since fresh_state
        (snd (run_request steady_env (Body boston_chat None)
           [Exec (Weather ''Boston'' (JSNumber ''61'')), Finish ''It is 61 degrees in Boston.'' None]
           fresh_state))))) = [Some 7000000, Some 21000000]"
proof -
  have m: "\<And>i j. i \<le> j \<Longrightarrow> clock steady_env i \<le> clock steady_env j"
    by (simp add: steady_env_def)
  have n: "nreads (snd (run_request steady_env (Body boston_chat None)
           [Exec (Weather ''Boston'' (JSNumber ''61'')), Finish ''It is 61 degrees in Boston.'' None]
           fresh_state)) = 4"
    by (simp add: run_request_def POST_eq weatherTool_def now_def logger_call_eq and_then_def
          onFinish_eq Let_def steady_env_def fresh_state_def)
  have b: "\<And>j k. j < 4 \<Longrightarrow> k < 4 \<Longrightarrow>
             \<bar>clock steady_env j - clock steady_env k\<bar> \<le> 9007199254"
    by (auto simp: steady_env_def abs_if)
  have d: "map span_duration (filter (\<lambda>c. is_tool_span c \<or> is_llm_span c)
     (invoked (events_since fresh_state
        (snd (run_request steady_env (Body boston_chat None)
           [Exec (Weather ''Boston'' (JSNumber ''61'')), Finish ''It is 61 degrees in Boston.'' None]
           fresh_state))))) = [Some 7000000, Some 21000000]"
    by (simp add: run_request_def POST_eq weatherTool_def now_def logger_call_eq and_then_def
          onFinish_eq Let_def steady_env_def fresh_state_def events_since_def durationNs_def
          to_double_def)
  have "list_all (\<lambda>c. case span_duration c of None \<Rightarrow> True | Some d \<Rightarrow> 1000000 dvd d \<and> 0 \<le> d)
     (invoked (events_since fresh_state
        (snd (run_request steady_env (Body boston_chat None)
           [Exec (Weather ''Boston'' (JSNumber ''61'')), Finish ''It is 61 degrees in Boston.'' None]
           fresh_state))))"
    unfolding list_all_iff
  proof
    fix c
    assume c: "c \<in> set (invoked (events_since fresh_state
        (snd (run_request steady_env (Body boston_chat None)
           [Exec (Weather ''Boston'' (JSNumber ''61'')), Finish ''It is 61 degrees in Boston.'' None]
           fresh_state))))"
    show "case span_duration c of None \<Rightarrow> True | Some d \<Rightarrow> 1000000 dvd d \<and> 0 \<le> d"
    proof (cases "span_duration c")
      case None
      then show ?thesis by simp
    next
      case (Some d)
      have h: "run_request steady_env (Body boston_chat None)
             [Exec (Weather ''Boston'' (JSNumber ''61'')), Finish ''It is 61 degrees in Boston.'' None]
             fresh_state =
           (fst (run_request steady_env (Body boston_chat None)
             [Exec (Weather ''Boston'' (JSNumber ''61'')), Finish ''It is 61 degrees in Boston.'' None]
             fresh_state),
            snd (run_request steady_env (Body boston_chat None)
             [Exec (Weather ''Boston'' (JSNumber ''61'')), Finish ''It is 61 degrees in Boston.'' None]
             fresh_state))"
        by simp
      note t = durations_from_clock_readings [OF h, unfolded n]
      from t c Some obtain k j where kj: "k < j" "j < 4"
        "\<bar>clock steady_env j - clock steady_env k\<bar> \<le> 9007199254 \<longrightarrow>
           d = (clock steady_env j - clock steady_env k) * 1000000 \<and> 1000000 dvd d
           \<and> (0 \<le> d) = (clock steady_env k \<le> clock steady_env j)"
        by blast
      then have "1000000 dvd d \<and> 0 \<le> d"
        using b[of j k] m[of k j] by simp
      then show ?thesis using Some by simp
    qed
  qed
  then show ?thesis using d by simp
qed

subsection \<open>C8: the serialised conversation read back\<close>

lemma hex_value_digit: "n < 16 \<Longrightarrow> hex_value (hex_digit n) = Some n"
  by (auto simp: hex_value_def hex_digit_def Let_def)

lemma unicode_escape_control:
  "(of_char c :: nat) < 32 \<Longrightarrow>
   unicode_escape (CHR ''0'') (CHR ''0'') (hex_digit (of_char c div 16)) (hex_digit (of_char c mod 16)) = Some c"
proof -
  assume a: "(of_char c :: nat) < 32"
  have z: "hex_value (CHR ''0'') = Some 0" by (simp add: hex_value_def)
  have "(of_char c :: nat) div 16 < 16" "(of_char c :: nat) mod 16 < 16" using a by auto
  then have "hex_value (hex_digit (of_char c div 16)) = Some (of_char c div 16)"
            "hex_value (hex_digit (of_char c mod 16)) = Some (of_char c mod 16)"
    by (simp_all add: hex_value_digit)
  then show ?thesis by (simp add: unicode_escape_def z)
qed

lemma unquote_escape:
  "unquote (json_escape c @ rest) = map_option (\<lambda>(t, r). (c # t, r)) (unquote rest)"
  by (auto simp: json_escape_def unescape_def unicode_escape_control)

lemma unquote_escaped:
  "unquote (concat (map json_escape s) @ CHR 0x22 # rest) = Some (s, rest)"
  by (induction s) (simp_all add: unquote_escape)

lemma parse_string_quote: "parse_string (json_quote s @ rest) = Some (s, rest)"
  by (simp add: parse_string_def json_quote_def expect_def unquote_escaped)

lemma parse_field_quote:
  "parse_field key (json_quote key @ '':'' @ json_quote v @ rest) = Some (v, rest)"
  using parse_string_quote[of key "'':'' @ json_quote v @ rest"] parse_string_quote[of v rest]
  by (simp add: parse_field_def expect_def)

lemma parse_message_object:
  "parse_message (stringify_object [(''role'', JString r), (''content'', JString c)] @ rest) =
     Some ((r, c), rest)"
  using parse_field_quote[of "''role''" r
          "'','' @ json_quote ''content'' @ '':'' @ json_quote c @ ''}'' @ rest"]
        parse_field_quote[of "''content''" c "''}'' @ rest"]
  by (simp add: parse_message_def stringify_object_def stringify_value_def expect_def)

lemma stringify_object_nonempty: "stringify_object fs \<noteq> []"
  by (simp add: stringify_object_def)

lemma parse_elements_roundtrip:
  "length ms \<le> n \<Longrightarrow> ms \<noteq> [] \<Longrightarrow>
   parse_elements n (stringify_elements (map message_object ms) @ '']'') = Some ms"
proof (induction ms arbitrary: n)
  case Nil
  then show ?case by simp
next
  case (Cons m ms)
  obtain k where n: "n = Suc k" using Cons.prems(1) by (cases n) auto
  show ?case
  proof (cases ms)
    case Nil
    show ?thesis
      using parse_message_object[of "fst m" "snd m" "'']''"]
      by (simp add: n Nil message_object_def)
  next
    case (Cons m' ms')
    have ih: "parse_elements k (stringify_elements (map message_object ms) @ '']'') = Some ms"
      using Cons.IH[of k] Cons.prems(1) n Cons by simp
    have ne: "'','' @ stringify_elements (map message_object ms) @ '']'' \<noteq> '']''"
      by simp
    have pm: "parse_message
          (stringify_object (message_object m) @
           '','' @ stringify_elements (map message_object ms) @ '']'') =
          Some (m, '','' @ stringify_elements (map message_object ms) @ '']'')"
      using parse_message_object[of "fst m" "snd m"
          "'','' @ stringify_elements (map message_object ms) @ '']''"]
      by (simp add: message_object_def)
    have "stringify_elements (map message_object (m # ms)) @ '']'' =
          stringify_object (message_object m) @
           '','' @ stringify_elements (map message_object ms) @ '']''"
      by (simp add: Cons)
    then show ?thesis
      using pm ih by (simp add: n expect_def)
  qed
qed

lemma length_stringify_elements: "length xs \<le> length (stringify_elements xs @ '']'')"
  by (induction xs rule: stringify_elements.induct) (simp_all add: stringify_object_def)

lemma stringify_elements_nonempty: "xs \<noteq> [] \<Longrightarrow> stringify_elements xs \<noteq> []"
  by (cases xs rule: stringify_elements.cases) (simp_all add: stringify_object_def)

lemma parse_transcript_roundtrip:
  "parse_transcript (stringify_array (map message_object ms)) = Some ms"
proof (cases "ms = []")
  case True
  then show ?thesis by (simp add: parse_transcript_def stringify_array_def expect_def)
next
  case False
  have l: "length ms \<le> length (stringify_elements (map message_object ms) @ '']'')"
    using length_stringify_elements[of "map message_object ms"] by simp
  have ne: "stringify_elements (map message_object ms) @ '']'' \<noteq> '']''"
    using stringify_elements_nonempty[of "map message_object ms"] False by simp
  show ?thesis
    using parse_elements_roundtrip[OF l False] ne
    by (simp add: parse_transcript_def stringify_array_def expect_def)
qed


lemma js_join_holds_element: "Some t \<in> set xs \<Longrightarrow> sublist t (js_join sep xs)"
proof (induction sep xs rule: js_join.induct)
  case (1 sep)
  then show ?case by simp
next
  case (2 sep x)
  then show ?case by auto
next
  case (3 sep x y ys)
  show ?case
  proof (cases "x = Some t")
    case True
    then show ?thesis by simp
  next
    case False
    then have "sublist t (js_join sep (y # ys))"
      using 3 by simp
    then have "sublist t (sep @ js_join sep (y # ys))"
      by (simp add: sublist_append)
    then show ?thesis
      by (simp add: sublist_append)
  qed
qed

lemma message_content_holds_text:
  assumes "UIPart ''text'' (Some t) \<in> set ps"
  shows "sublist t (message_content (UIMessage r (Some ps)))"
proof -
  have "Some t \<in> set (map part_content ps)"
    using assms by (force simp: part_content_def)
  then have "sublist t (js_join '' '' (map part_content ps))"
    by (rule js_join_holds_element)
  then show ?thesis
    by (simp add: message_content_def js_or_def)
qed

lemma message_object_lambda:
  "(\<lambda>(r, c). [(''role'', JString r), (''content'', JString c)]) = message_object"
  by (auto simp: message_object_def fun_eq_iff)

text \<open>
  C8 says that the serialisation, read back, gives for every message its role and the
  text of every text part. The content of a message is its parts joined by a space, so
  a message with the one text part \<open>Hello world\<close> and a message with the two text parts
  \<open>Hello\<close> and \<open>world\<close> have the same serialisation: no reading of it gives back the text
  parts of both.
\<close>

theorem agent_input_merges_text_parts:
  "agent_input [UIMessage ''user'' (Some [UIPart ''text'' (Some ''Hello world'')])] =
   agent_input [UIMessage ''user'' (Some [UIPart ''text'' (Some ''Hello''),
                                          UIPart ''text'' (Some ''world'')])]
   \<and> text_view [UIMessage ''user'' (Some [UIPart ''text'' (Some ''Hello world'')])] \<noteq>
     text_view [UIMessage ''user'' (Some [UIPart ''text'' (Some ''Hello''),
                                          UIPart ''text'' (Some ''world'')])]"
  by (simp add: agent_input_def transcript_def message_content_def part_content_def js_or_def
        text_view_def message_texts_def)

text \<open>
  C8, amended. Reading the serialisation back gives, for every message, its role and
  its content: the texts of its text parts and the marker \<open>[type]\<close> of every other part,
  in order, joined by single spaces (the empty string for a message without parts). The
  text of every text part occurs in the content of its message; it is the whole content
  when the text part is the only part, as the marker is for a single part of another
  type. Where one part ends and the next begins is not recovered.
\<close>

theorem agent_input_roundtrip:
  "parse_transcript (agent_input msgs) = Some (map (\<lambda>m. (role m, message_content m)) msgs)
   \<and> message_content (UIMessage r None) = []
   \<and> message_content (UIMessage r (Some ps)) = js_join '' '' (map part_content ps)
   \<and> part_content (UIPart ''text'' (Some t)) = Some t
   \<and> (ty \<noteq> ''text'' \<longrightarrow> part_content (UIPart ty x) = Some (''['' @ ty @ '']''))
   \<and> message_content (UIMessage r (Some [UIPart ''text'' (Some t)])) = t
   \<and> (ty \<noteq> ''text'' \<longrightarrow> message_content (UIMessage r (Some [UIPart ty x])) = ''['' @ ty @ '']'')
   \<and> (UIPart ''text'' (Some t') \<in> set ps \<longrightarrow> sublist t' (message_content (UIMessage r (Some ps))))"
proof -
  have "parse_transcript (agent_input msgs) = Some (transcript msgs)"
    by (simp add: agent_input_def message_object_lambda parse_transcript_roundtrip)
  moreover have "UIPart ''text'' (Some t') \<in> set ps \<Longrightarrow>
      sublist t' (js_join '' '' (map part_content ps))"
    using message_content_holds_text[of t' ps r] by (simp add: message_content_def js_or_def)
  ultimately show ?thesis
    by (simp add: transcript_def message_content_def part_content_def js_or_def)
qed

theorem agent_input_roundtrip_witness:
  "parse_transcript (agent_input answered_chat) =
     Some [(''user'', ''What is the weather in Boston?''),
           (''assistant'', ''It is 70 degrees in Boston.'')]
   \<and> message_content (UIMessage ''assistant'' (Some [UIPart ''tool-weather'' None])) =
       ''[tool-weather]''"
  using agent_input_roundtrip [where msgs = answered_chat and r = "''assistant''" and ps = "[]"
          and t = "[]" and ty = "''tool-weather''" and x = None and t' = "[]"]
  by (simp add: answered_chat_def message_content_def part_content_def js_or_def)

end
